theory Spec2Isabelle
  imports Complex_Main
begin

section \<open>The voice-session component: data\<close>

text \<open>
  The component \<open>App\<close> keeps its session in React state (\<open>connectionState\<close>, \<open>isMicOn\<close>,
  \<open>errorMsg\<close>) and in refs (\<open>streamRef\<close>, \<open>sourceRef\<close>, \<open>processorRef\<close>, \<open>nextStartTimeRef\<close>,
  \<open>audioSourcesRef\<close>, \<open>sessionPromiseRef\<close>). The event loop runs one handler at a time, so
  a handler is a function from the state before to the state after; where a handler
  awaits, the parts before and after the \<open>await\<close> are given as well. Times are the seconds
  of the output context's clock.
\<close>

datatype ConnectionState = Disconnected | Connecting | Connected | Error

datatype exn = Exn (message: string)

record AudioBuffer =
  duration :: real

text \<open>
  An \<open>AudioBufferSourceNode\<close> of the output context. The nodes live in a store
  (\<open>nodes\<close> below) and are named by their index there, because the set
  \<open>audioSourcesRef\<close> holds references to them and forgets them on \<open>clear()\<close>.
\<close>

record BufferSource =
  buffer :: AudioBuffer
  startedAt :: "real option"
  stopped :: bool
  ended :: bool

type_synonym MediaStream = nat

record EncodedChunk =
  mimeType :: string
  data :: string

text \<open>The closure of \<open>scriptProcessor.onaudioprocess\<close>: the \<open>isMicOn\<close> it reads is the constant
  of the render in which \<open>connectToGemini\<close> was called.\<close>

record ScriptProcessor =
  p_isMicOn :: bool

datatype Session = Session (close_raises: "exn option")

datatype SessionPromise = Pending | Fulfilled Session | Rejected exn

text \<open>The variables the callbacks passed to \<open>ai.live.connect\<close> close over.\<close>

record Closure =
  c_isMicOn :: bool
  c_stream :: MediaStream

record LiveServerMessage =
  inlineData :: "string option"
  interrupted :: bool

record App =
  connectionState :: ConnectionState
  isMicOn :: bool
  errorMsg :: "string option"
  streamRef :: "MediaStream option"
  sourceRef :: "MediaStream option"
  processorRef :: "ScriptProcessor option"
  nextStartTimeRef :: real
  audioSourcesRef :: "nat list"
  sessionPromiseRef :: "SessionPromise option"
  nodes :: "BufferSource list"
  outbox :: "EncodedChunk list"
  console :: "string list"
  closeCalls :: nat
  liveCallbacks :: "Closure option"
  uncaught :: "exn list"

text \<open>
  The last six fields are the world outside the component: the store of output nodes,
  the chunks handed to \<open>session.sendRealtimeInput\<close>, the console, the number of
  \<open>session.close()\<close> calls, the callbacks the remote session holds, and the errors that
  escaped a handler.
\<close>

definition initial :: App where
  "initial = \<lparr> connectionState = Disconnected, isMicOn = True, errorMsg = None,
      streamRef = None, sourceRef = None, processorRef = None,
      nextStartTimeRef = 0, audioSourcesRef = [], sessionPromiseRef = None,
      nodes = [], outbox = [], console = [], closeCalls = 0, liveCallbacks = None,
      uncaught = [] \<rparr>"

section \<open>Statements that may throw\<close>

text \<open>
  A statement either completes with a new state (\<open>Inr\<close>) or throws an exception in the
  state reached at the throw (\<open>Inl\<close>).
\<close>

type_synonym 's comp = "'s \<Rightarrow> (exn \<times> 's) + 's"

definition pure_step :: "('s \<Rightarrow> 's) \<Rightarrow> 's comp" where
  "pure_step f s = Inr (f s)"

definition then_do :: "'s comp \<Rightarrow> 's comp \<Rightarrow> 's comp" where
  "then_do f g s = (case f s of Inl x \<Rightarrow> Inl x | Inr s' \<Rightarrow> g s')"

definition try_catch :: "'s comp \<Rightarrow> (exn \<Rightarrow> 's comp) \<Rightarrow> 's comp" where
  "try_catch body handler s = (case body s of Inl (e, s') \<Rightarrow> handler e s' | Inr s' \<Rightarrow> Inr s')"

fun forEach :: "('k \<Rightarrow> 's comp) \<Rightarrow> 'k list \<Rightarrow> 's comp" where
  "forEach f [] s = Inr s"
| "forEach f (x # xs) s = (case f x s of Inl e \<Rightarrow> Inl e | Inr s' \<Rightarrow> forEach f xs s')"

definition ignore :: "exn \<Rightarrow> 's comp" where
  "ignore e s = Inr s"

definition console_write :: "string \<Rightarrow> App \<Rightarrow> App" where
  "console_write line s = s\<lparr>console := console s @ [line]\<rparr>"

section \<open>Numbers\<close>

text \<open>
  The numbers of the program are IEEE 754 doubles. A double is taken as the real it
  denotes; \<open>Math.max\<close> and comparisons are exact on them, and a sum is the exact sum
  rounded to the nearest double, ties to the even significand (\<open>round_double\<close>: 53
  significant bits, the exponent of the last place not below \<open>-1074\<close>). Sums beyond the
  largest double, which the seconds of a clock do not reach, are outside the model.
\<close>

definition pow2 :: "int \<Rightarrow> real" where
  "pow2 e = (if 0 \<le> e then 2 ^ nat e else 1 / 2 ^ nat (- e))"

definition round_even :: "real \<Rightarrow> int" where
  "round_even y =
     (let f = \<lfloor>y\<rfloor> in
      if y - of_int f < 1 / 2 then f
      else if 1 / 2 < y - of_int f then f + 1
      else if even f then f else f + 1)"

definition double_exponent :: "real \<Rightarrow> int" where
  "double_exponent x = max (\<lfloor>log 2 \<bar>x\<bar>\<rfloor> - 52) (- 1074)"

definition round_double :: "real \<Rightarrow> real" where
  "round_double x =
     (if x = 0 then 0
      else of_int (round_even (x / pow2 (double_exponent x))) * pow2 (double_exponent x))"

definition double_add :: "real \<Rightarrow> real \<Rightarrow> real" where
  "double_add x y = round_double (x + y)"

section \<open>Output nodes and the set of playing sources\<close>

text \<open>
  \<open>source.start(when)\<close> raises a RangeError for a negative time and an InvalidStateError
  on a node that was started before. \<open>source.stop()\<close> raises an InvalidStateError on a
  node that was never started; the model also lets it raise on a node that has finished or
  was stopped, which is the most the \<open>try\<close> around it has to absorb. A handler only
  names the node it has just created or a member of the set; an index outside the store
  names no node, and a call through it throws.
\<close>

definition start_node :: "real \<Rightarrow> BufferSource \<Rightarrow> exn + BufferSource" where
  "start_node when n =
     (if when < 0 then Inl (Exn ''RangeError'')
      else if startedAt n \<noteq> None then Inl (Exn ''InvalidStateError'')
      else Inr (n\<lparr>startedAt := Some when\<rparr>))"

definition stop_node :: "BufferSource \<Rightarrow> exn + BufferSource" where
  "stop_node n =
     (if startedAt n = None \<or> ended n \<or> stopped n then Inl (Exn ''InvalidStateError'')
      else Inr (n\<lparr>stopped := True\<rparr>))"

definition on_node :: "(BufferSource \<Rightarrow> exn + BufferSource) \<Rightarrow> nat \<Rightarrow> App comp" where
  "on_node f i s =
     (if i < length (nodes s) then
        (case f (nodes s ! i) of
           Inl e \<Rightarrow> Inl (e, s)
         | Inr n \<Rightarrow> Inr (s\<lparr>nodes := (nodes s)[i := n]\<rparr>))
      else Inl (Exn ''TypeError'', s))"

definition createBufferSource :: "AudioBuffer \<Rightarrow> App \<Rightarrow> App" where
  "createBufferSource audioBuffer s =
     s\<lparr>nodes := nodes s @ [\<lparr>buffer = audioBuffer, startedAt = None, stopped = False, ended = False\<rparr>]\<rparr>"

definition set_add :: "nat \<Rightarrow> nat list \<Rightarrow> nat list" where
  "set_add x xs = (if x \<in> set xs then xs else xs @ [x])"

definition set_delete :: "nat \<Rightarrow> nat list \<Rightarrow> nat list" where
  "set_delete x xs = removeAll x xs"

section \<open>Teardown\<close>

definition stopAudioInput :: "App \<Rightarrow> App" where
  "stopAudioInput s =
     (let s1 = (if processorRef s \<noteq> None then s\<lparr>processorRef := None\<rparr> else s);
          s2 = (if sourceRef s1 \<noteq> None then s1\<lparr>sourceRef := None\<rparr> else s1)
      in if streamRef s2 \<noteq> None then s2\<lparr>streamRef := None\<rparr> else s2)"

definition stopAudioOutput :: "App comp" where
  "stopAudioOutput =
     then_do
       (\<lambda>s. forEach (\<lambda>source. try_catch (on_node stop_node source) ignore)
               (audioSourcesRef s) s)
       (pure_step (\<lambda>s. s\<lparr>audioSourcesRef := [], nextStartTimeRef := 0\<rparr>))"

definition session_close :: "Session \<Rightarrow> App comp" where
  "session_close session s =
     (let s' = s\<lparr>closeCalls := closeCalls s + 1\<rparr>
      in case close_raises session of Some e \<Rightarrow> Inl (e, s') | None \<Rightarrow> Inr s')"

text \<open>
  \<open>disconnect\<close> is an async function. Its first three statements run at the call. If
  \<open>sessionPromiseRef.current\<close> is set it then awaits that promise, outside any \<open>try\<close>: a
  fulfilled promise resumes the function with the session, a rejected one makes the
  \<open>await\<close> throw, and while the promise is pending the rest does not run.
\<close>

definition disconnect_sync :: "App comp" where
  "disconnect_sync =
     then_do (pure_step (\<lambda>s. s\<lparr>connectionState := Disconnected\<rparr>))
    (then_do (pure_step stopAudioInput)
             stopAudioOutput)"

definition disconnect_resume :: "SessionPromise \<Rightarrow> App comp" where
  "disconnect_resume awaited =
     (case awaited of
        Pending \<Rightarrow> Inr
      | Rejected e \<Rightarrow> (\<lambda>s. Inl (e, s))
      | Fulfilled session \<Rightarrow>
          then_do
            (try_catch (session_close session)
               (\<lambda>e. pure_step (console_write ''Error closing session'')))
            (pure_step (\<lambda>s. s\<lparr>sessionPromiseRef := None\<rparr>)))"

definition disconnect :: "App comp" where
  "disconnect =
     then_do disconnect_sync
       (\<lambda>s. case sessionPromiseRef s of
               None \<Rightarrow> Inr s
             | Some awaited \<Rightarrow> disconnect_resume awaited s)"

section \<open>Connecting\<close>

text \<open>
  What \<open>connectToGemini\<close> gets from outside the component: the API key of the environment,
  the outcome of \<open>getUserMedia\<close>, whether both audio contexts exist, the outcome of
  resuming them, and the promise \<open>ai.live.connect\<close> returns.
\<close>

record ConnectEnv =
  apiKey :: "string option"
  getUserMedia :: "exn + MediaStream"
  contextsInitialized :: bool
  resume_raises :: "exn option"
  live_connect :: SessionPromise

definition connectToGemini :: "ConnectEnv \<Rightarrow> App comp" where
  "connectToGemini env =
     try_catch
       (then_do (pure_step (\<lambda>s. s\<lparr>errorMsg := None, connectionState := Connecting\<rparr>))
       (then_do (\<lambda>s. if apiKey env = None \<or> apiKey env = Some []
                      then Inl (Exn ''API Key not found in environment variables'', s)
                      else Inr s)
          (case getUserMedia env of
             Inl e \<Rightarrow> (\<lambda>s. Inl (e, s))
           | Inr stream \<Rightarrow>
               then_do (pure_step (\<lambda>s. s\<lparr>streamRef := Some stream\<rparr>))
              (then_do (\<lambda>s. if \<not> contextsInitialized env
                             then Inl (Exn ''Audio Context not initialized'', s)
                             else Inr s)
              (then_do (\<lambda>s. case resume_raises env of Some e \<Rightarrow> Inl (e, s) | None \<Rightarrow> Inr s)
                 (pure_step (\<lambda>s. s\<lparr>liveCallbacks := Some \<lparr>c_isMicOn = isMicOn s, c_stream = stream\<rparr>,
                                    sessionPromiseRef := Some (live_connect env)\<rparr>)))))))
       (\<lambda>err. pure_step (\<lambda>s. (console_write (message err) s)
                  \<lparr>errorMsg := Some (if message err = [] then ''Failed to connect'' else message err),
                   connectionState := Error\<rparr>))"

section \<open>The callbacks of the remote session\<close>

definition onaudioprocess :: "ScriptProcessor \<Rightarrow> EncodedChunk \<Rightarrow> App \<Rightarrow> App" where
  "onaudioprocess p pcmBlob s =
     (if \<not> p_isMicOn p then s
      else s\<lparr>outbox := outbox s @ [pcmBlob]\<rparr>)"

definition onopen :: "Closure \<Rightarrow> App \<Rightarrow> App" where
  "onopen c s =
     (console_write ''Gemini Live Connected'' (s\<lparr>connectionState := Connected\<rparr>))
       \<lparr>sourceRef := Some (c_stream c),
        processorRef := Some \<lparr>p_isMicOn = c_isMicOn c\<rparr>\<rparr>"

text \<open>
  The statements of \<open>onmessage\<close> after the decoded buffer is there, in the order of the
  source: create the node, start it at the cursor, advance the cursor, add the node to
  the set.
\<close>

definition enqueue_statements :: "AudioBuffer \<Rightarrow> nat \<Rightarrow> App comp list" where
  "enqueue_statements audioBuffer source =
     [pure_step (createBufferSource audioBuffer),
      (\<lambda>s. on_node (start_node (nextStartTimeRef s)) source s),
      pure_step (\<lambda>s. s\<lparr>nextStartTimeRef :=
                          double_add (nextStartTimeRef s) (duration audioBuffer)\<rparr>),
      pure_step (\<lambda>s. s\<lparr>audioSourcesRef := set_add source (audioSourcesRef s)\<rparr>)]"

fun run_statements :: "'s comp list \<Rightarrow> 's comp" where
  "run_statements [] s = Inr s"
| "run_statements (c # cs) s = then_do c (run_statements cs) s"

definition schedule_source :: "AudioBuffer \<Rightarrow> App comp" where
  "schedule_source audioBuffer s =
     run_statements (enqueue_statements audioBuffer (length (nodes s))) s"

text \<open>
  \<open>currentTime\<close> is the reading of \<open>outputCtx.currentTime\<close> and \<open>decoded\<close> the outcome of
  \<open>await decodeAudioData(decode(base64Audio), outputCtx, 24000, 1)\<close>; both come from code
  outside the component.
\<close>

definition onmessage :: "real \<Rightarrow> exn + AudioBuffer \<Rightarrow> LiveServerMessage \<Rightarrow> App comp" where
  "onmessage currentTime decoded msg =
     then_do
       (if inlineData msg = None \<or> inlineData msg = Some [] then Inr
        else
          try_catch
            (then_do
               (pure_step (\<lambda>s. s\<lparr>nextStartTimeRef := max (nextStartTimeRef s) currentTime\<rparr>))
               (case decoded of
                  Inl e \<Rightarrow> (\<lambda>s. Inl (e, s))
                | Inr audioBuffer \<Rightarrow> schedule_source audioBuffer))
            (\<lambda>err. pure_step (console_write ''Error decoding audio chunk'')))
       (if interrupted msg
        then then_do (pure_step (console_write ''Interrupted by user'')) stopAudioOutput
        else Inr)"

text \<open>
  \<open>onmessage\<close> is an async function: it runs up to the \<open>await\<close> of the decode, and the rest
  runs when the decode has settled. The two parts, for use where other handlers run in
  between.
\<close>

definition onmessage_begin :: "real \<Rightarrow> LiveServerMessage \<Rightarrow> App \<Rightarrow> App" where
  "onmessage_begin currentTime msg s =
     (if inlineData msg = None \<or> inlineData msg = Some [] then s
      else s\<lparr>nextStartTimeRef := max (nextStartTimeRef s) currentTime\<rparr>)"

definition onmessage_resume :: "exn + AudioBuffer \<Rightarrow> LiveServerMessage \<Rightarrow> App comp" where
  "onmessage_resume decoded msg =
     then_do
       (if inlineData msg = None \<or> inlineData msg = Some [] then Inr
        else
          try_catch
            (case decoded of
               Inl e \<Rightarrow> (\<lambda>s. Inl (e, s))
             | Inr audioBuffer \<Rightarrow> schedule_source audioBuffer)
            (\<lambda>err. pure_step (console_write ''Error decoding audio chunk'')))
       (if interrupted msg
        then then_do (pure_step (console_write ''Interrupted by user'')) stopAudioOutput
        else Inr)"

definition onclose :: "App \<Rightarrow> App" where
  "onclose s = (console_write ''Session Closed'' s)\<lparr>connectionState := Disconnected\<rparr>"

definition onerror :: "exn \<Rightarrow> App comp" where
  "onerror e =
     then_do (pure_step (console_write ''Session Error''))
    (then_do (pure_step (\<lambda>s. s\<lparr>errorMsg := Some ''Connection error. Please try again.''\<rparr>))
             disconnect)"

definition toggleMic :: "App \<Rightarrow> App" where
  "toggleMic s = s\<lparr>isMicOn := \<not> isMicOn s\<rparr>"

text \<open>The listener of a node's \<open>ended\<close> event, after the browser has marked the node.\<close>

definition source_ended :: "nat \<Rightarrow> App \<Rightarrow> App" where
  "source_ended source s =
     (if source < length (nodes s) \<and> startedAt (nodes s ! source) \<noteq> None
      then s\<lparr>nodes := (nodes s)[source := (nodes s ! source)\<lparr>ended := True\<rparr>],
             audioSourcesRef := set_delete source (audioSourcesRef s)\<rparr>
      else s)"

section \<open>The event loop\<close>

datatype Event =
    HandleAgentSelect ConnectEnv
  | RemoteOpen
  | RemoteMessage real "exn + AudioBuffer" LiveServerMessage
  | RemoteClose
  | RemoteError exn
  | Hangup
  | ToggleMic
  | CaptureTick EncodedChunk
  | SourceEnded nat

fun handler :: "Event \<Rightarrow> App comp" where
  "handler (HandleAgentSelect env) s = connectToGemini env s"
| "handler RemoteOpen s =
     (case liveCallbacks s of None \<Rightarrow> Inr s | Some c \<Rightarrow> Inr (onopen c s))"
| "handler (RemoteMessage currentTime decoded msg) s =
     (case liveCallbacks s of None \<Rightarrow> Inr s | Some c \<Rightarrow> onmessage currentTime decoded msg s)"
| "handler RemoteClose s =
     (case liveCallbacks s of None \<Rightarrow> Inr s | Some c \<Rightarrow> Inr (onclose s))"
| "handler (RemoteError e) s =
     (case liveCallbacks s of None \<Rightarrow> Inr s | Some c \<Rightarrow> onerror e s)"
| "handler Hangup s = disconnect s"
| "handler ToggleMic s = Inr (toggleMic s)"
| "handler (CaptureTick pcmBlob) s =
     (case processorRef s of None \<Rightarrow> Inr s | Some p \<Rightarrow> Inr (onaudioprocess p pcmBlob s))"
| "handler (SourceEnded source) s = Inr (source_ended source s)"

definition step :: "Event \<Rightarrow> App \<Rightarrow> App" where
  "step ev s =
     (case handler ev s of
        Inr s' \<Rightarrow> s'
      | Inl (e, s') \<Rightarrow> s'\<lparr>uncaught := uncaught s' @ [e]\<rparr>)"

fun run :: "Event list \<Rightarrow> App \<Rightarrow> App" where
  "run [] s = s"
| "run (ev # evs) s = run evs (step ev s)"

section \<open>Notions used in the statements\<close>

text \<open>The state a statement leaves behind, whether it completed or threw.\<close>

fun state_of :: "(exn \<times> 's) + 's \<Rightarrow> 's" where
  "state_of (Inl (e, s)) = s"
| "state_of (Inr s) = s"

text \<open>What the loop of \<open>stopAudioOutput\<close> does to the store, one member at a time.\<close>

definition try_stop :: "nat \<Rightarrow> BufferSource list \<Rightarrow> BufferSource list" where
  "try_stop i ns =
     (if i < length ns
      then (case stop_node (ns ! i) of Inl e \<Rightarrow> ns | Inr n \<Rightarrow> ns[i := n])
      else ns)"

text \<open>A node is playing from \<open>start\<close> until it is stopped or has ended.\<close>

definition playing :: "BufferSource \<Rightarrow> bool" where
  "playing n = (startedAt n \<noteq> None \<and> \<not> stopped n \<and> \<not> ended n)"

text \<open>The start time and duration of every started node, in the order of creation.\<close>

fun scheduled :: "BufferSource list \<Rightarrow> (real \<times> real) list" where
  "scheduled [] = []"
| "scheduled (n # ns) =
     (case startedAt n of
        None \<Rightarrow> scheduled ns
      | Some t \<Rightarrow> (t, duration (buffer n)) # scheduled ns)"

text \<open>The claim's condition, with the exact sum: \<open>start(i+1) \<ge> start(i) + d(i)\<close>.\<close>

fun non_overlapping :: "(real \<times> real) list \<Rightarrow> bool" where
  "non_overlapping [] = True"
| "non_overlapping [u] = True"
| "non_overlapping ((t1, d1) # (t2, d2) # rest) =
     (t1 + d1 \<le> t2 \<and> non_overlapping ((t2, d2) # rest))"

text \<open>The same with the sum the program computes: no unit starts before the double sum of
  the start and the duration of the one before.\<close>

fun non_overlapping_rounded :: "(real \<times> real) list \<Rightarrow> bool" where
  "non_overlapping_rounded [] = True"
| "non_overlapping_rounded [u] = True"
| "non_overlapping_rounded ((t1, d1) # (t2, d2) # rest) =
     (double_add t1 d1 \<le> t2 \<and> non_overlapping_rounded ((t2, d2) # rest))"

text \<open>Successive units overlap by no more than half a unit in the last place of the exact
  end of the earlier one.\<close>

fun overlap_within_rounding :: "(real \<times> real) list \<Rightarrow> bool" where
  "overlap_within_rounding [] = True"
| "overlap_within_rounding [u] = True"
| "overlap_within_rounding ((t1, d1) # (t2, d2) # rest) =
     (t1 + d1 - t2 \<le> pow2 (double_exponent (t1 + d1)) / 2
      \<and> overlap_within_rounding ((t2, d2) # rest))"

definition ends_by :: "(real \<times> real) list \<Rightarrow> real \<Rightarrow> bool" where
  "ends_by us t = (us = [] \<or> double_add (fst (last us)) (snd (last us)) \<le> t)"

text \<open>The units of the store from index \<open>k\<close> on do not overlap, in the program's sums, and
  the cursor is not before the end of the last of them.\<close>

definition schedule_ok_from :: "nat \<Rightarrow> App \<Rightarrow> bool" where
  "schedule_ok_from k s =
     (k \<le> length (nodes s)
      \<and> non_overlapping_rounded (scheduled (drop k (nodes s)))
      \<and> ends_by (scheduled (drop k (nodes s))) (nextStartTimeRef s))"

text \<open>
  The scheduler in the words of the specification: \<open>enqueue\<close> computes
  \<open>startTime = max(nextStartTime, outputClockNow())\<close>, schedules the unit at \<open>startTime\<close>
  and advances \<open>nextStartTime = startTime + durationSeconds\<close>, the sum being one of
  doubles. A request is the clock reading and the duration of the unit.
\<close>

fun spec_enqueue_all :: "real \<Rightarrow> (real \<times> real) list \<Rightarrow> (real \<times> real) list" where
  "spec_enqueue_all nextStartTime [] = []"
| "spec_enqueue_all nextStartTime ((now, d) # rest) =
     (max nextStartTime now, d) # spec_enqueue_all (double_add (max nextStartTime now) d) rest"

text \<open>
  The two parts of a message handler as events of their own: the arrival of a message,
  which runs \<open>onmessage\<close> up to its \<open>await\<close>, and the settling of a decode, which runs the
  rest. A list of them is any order in which the parts of several handlers may run.
\<close>

datatype Half =
    Arrival real LiveServerMessage
  | Settled "exn + AudioBuffer" LiveServerMessage

fun half_step :: "Half \<Rightarrow> App \<Rightarrow> App" where
  "half_step (Arrival currentTime msg) s = onmessage_begin currentTime msg s"
| "half_step (Settled decoded msg) s = state_of (onmessage_resume decoded msg s)"

fun run_halves :: "Half list \<Rightarrow> App \<Rightarrow> App" where
  "run_halves [] s = s"
| "run_halves (h # hs) s = run_halves hs (half_step h s)"

text \<open>A part of a handler whose message carries no interruption.\<close>

fun calm :: "Half \<Rightarrow> bool" where
  "calm (Arrival currentTime msg) = (\<not> interrupted msg)"
| "calm (Settled decoded msg) = (\<not> interrupted msg)"

text \<open>A message handled with nothing running during its decode is its two parts, one
  right after the other.\<close>

fun halves_of :: "Event \<Rightarrow> Half list" where
  "halves_of (RemoteMessage currentTime decoded msg) = [Arrival currentTime msg, Settled decoded msg]"
| "halves_of ev = []"

text \<open>An inbound message that carries audio and no interruption.\<close>

fun is_audio_message :: "Event \<Rightarrow> bool" where
  "is_audio_message (RemoteMessage currentTime decoded msg) =
     (inlineData msg \<noteq> None \<and> inlineData msg \<noteq> Some [] \<and> \<not> interrupted msg)"
| "is_audio_message ev = False"

text \<open>An audio message whose payload decodes, read at a clock that is not negative.\<close>

fun is_enqueue :: "Event \<Rightarrow> bool" where
  "is_enqueue (RemoteMessage currentTime (Inr audioBuffer) msg) = (0 \<le> currentTime)"
| "is_enqueue ev = False"

fun request :: "Event \<Rightarrow> real \<times> real" where
  "request (RemoteMessage currentTime (Inr audioBuffer) msg) = (currentTime, duration audioBuffer)"
| "request ev = (0, 0)"

text \<open>Every playing node of the store is a member of \<open>audioSourcesRef\<close>.\<close>

definition tracked :: "App \<Rightarrow> bool" where
  "tracked s =
     list_all (\<lambda>i. i \<in> set (audioSourcesRef s) \<or> \<not> playing (nodes s ! i)) [0..<length (nodes s)]"

subsection \<open>Concrete inputs\<close>

definition env_ok :: ConnectEnv where
  "env_ok = \<lparr> apiKey = Some ''key'', getUserMedia = Inr 1, contextsInitialized = True,
      resume_raises = None, live_connect = Fulfilled (Session None) \<rparr>"

definition env_rejected :: ConnectEnv where
  "env_rejected = env_ok\<lparr>live_connect := Rejected (Exn ''handshake failed'')\<rparr>"

definition chunk0 :: EncodedChunk where
  "chunk0 = \<lparr> mimeType = ''audio/pcm;rate=16000'', data = ''AAAA'' \<rparr>"

definition audio_msg :: LiveServerMessage where
  "audio_msg = \<lparr> inlineData = Some ''AAAA'', interrupted = False \<rparr>"

definition interrupting_audio_msg :: LiveServerMessage where
  "interrupting_audio_msg = \<lparr> inlineData = Some ''AAAA'', interrupted = True \<rparr>"

definition in_call :: App where
  "in_call = run [HandleAgentSelect env_ok, RemoteOpen] initial"

definition in_call_playing :: App where
  "in_call_playing = step (RemoteMessage 0 (Inr \<lparr>duration = 5\<rparr>) audio_msg) in_call"

definition finished_in_set :: App where
  "finished_in_set =
     initial\<lparr>nodes := [\<lparr>buffer = \<lparr>duration = 1\<rparr>, startedAt = Some 0, stopped = False, ended = True\<rparr>],
             audioSourcesRef := [0], nextStartTimeRef := 1\<rparr>"

text \<open>The doubles nearest to 0.1 and 0.7, the durations of 2400 and 16800 samples at
  24 kHz.\<close>

definition tenth :: real where
  "tenth = 3602879701896397 / 36028797018963968"

definition seven_tenths :: real where
  "seven_tenths = 3152519739159347 / 4503599627370496"

definition three_units :: "Event list" where
  "three_units =
     [RemoteMessage 0 (Inr \<lparr>duration = tenth\<rparr>) audio_msg,
      RemoteMessage 0 (Inr \<lparr>duration = seven_tenths\<rparr>) audio_msg,
      RemoteMessage 0 (Inr \<lparr>duration = tenth\<rparr>) audio_msg]"

text \<open>Two messages, the second arriving while the first is being decoded.\<close>

definition crossed_halves :: "Half list" where
  "crossed_halves =
     [Arrival 1 audio_msg, Arrival 2 audio_msg,
      Settled (Inr \<lparr>duration = 1\<rparr>) audio_msg, Settled (Inr \<lparr>duration = 1\<rparr>) audio_msg]"

definition two_chunks :: "Event list" where
  "two_chunks =
     [RemoteMessage 0 (Inr \<lparr>duration = 1\<rparr>) audio_msg,
      RemoteMessage (1/2) (Inr \<lparr>duration = 3/2\<rparr>) audio_msg]"

text \<open>The state after the audio part of \<open>onmessage\<close>, for a message that carries a payload.\<close>

definition after_audio :: "real \<Rightarrow> exn + AudioBuffer \<Rightarrow> App \<Rightarrow> App" where
  "after_audio currentTime decoded s =
     state_of
       (try_catch
          (then_do
             (pure_step (\<lambda>s. s\<lparr>nextStartTimeRef := max (nextStartTimeRef s) currentTime\<rparr>))
             (case decoded of
                Inl e \<Rightarrow> (\<lambda>s. Inl (e, s))
              | Inr audioBuffer \<Rightarrow> schedule_source audioBuffer))
          (\<lambda>err. pure_step (console_write ''Error decoding audio chunk'')) s)"

text \<open>The part of the state the playback scheduler owns.\<close>

definition playback_of :: "App \<Rightarrow> BufferSource list \<times> nat list \<times> real" where
  "playback_of s = (nodes s, audioSourcesRef s, nextStartTimeRef s)"

section \<open>Sums of doubles\<close>

lemma pow2_pos [simp]: "0 < pow2 e"
  by (simp add: pow2_def)

lemma pow2_nonneg [simp]: "0 \<le> pow2 e"
  by (simp add: pow2_def)

lemma pow2_nonzero [simp]: "pow2 e \<noteq> 0"
  using pow2_pos [of e] by linarith

lemma pow2_powr: "pow2 e = 2 powr (of_int e)"
proof (cases "0 \<le> e")
  case True
  then have "(2::real) powr (of_int e) = 2 powr (real (nat e))" by simp
  also have "\<dots> = 2 ^ nat e" by (simp add: powr_realpow)
  finally show ?thesis using True by (simp add: pow2_def)
next
  case False
  then have "(2::real) powr (of_int e) = 2 powr (- real (nat (- e)))" by simp
  also have "\<dots> = 1 / 2 ^ nat (- e)" by (simp add: powr_minus powr_realpow divide_simps)
  finally show ?thesis using False by (simp add: pow2_def)
qed

lemma double_exponent_eq:
  assumes "pow2 k \<le> \<bar>x\<bar>" "\<bar>x\<bar> < pow2 (k + 1)"
  shows "double_exponent x = max (k - 52) (- 1074)"
proof -
  have pos: "0 < \<bar>x\<bar>" using assms(1) pow2_pos [of k] by linarith
  have "\<lfloor>log 2 \<bar>x\<bar>\<rfloor> = k"
    using assms pos by (simp add: floor_log_eq_powr_iff pow2_powr)
  then show ?thesis by (simp add: double_exponent_def)
qed

lemma round_even_of_int [simp]: "round_even (of_int m) = m"
  by (simp add: round_even_def)

lemma round_even_error: "\<bar>of_int (round_even y) - y\<bar> \<le> 1 / 2"
  unfolding round_even_def Let_def by (auto simp: abs_if) linarith+

lemma round_double_eval:
  assumes "pow2 k \<le> \<bar>x\<bar>" "\<bar>x\<bar> < pow2 (k + 1)" "- 1022 \<le> k"
  shows "round_double x = of_int (round_even (x / pow2 (k - 52))) * pow2 (k - 52)"
proof -
  have "0 < \<bar>x\<bar>" using assms(1) pow2_pos [of k] by linarith
  then have "x \<noteq> 0" by simp
  moreover have "double_exponent x = k - 52"
    using double_exponent_eq [OF assms(1,2)] assms(3) by simp
  ultimately show ?thesis by (simp add: round_double_def)
qed

lemma round_double_exact:
  assumes "pow2 k \<le> \<bar>x\<bar>" "\<bar>x\<bar> < pow2 (k + 1)" "- 1022 \<le> k" "x = of_int m * pow2 (k - 52)"
  shows "round_double x = x"
proof -
  have "x / pow2 (k - 52) = of_int m"
    using assms(4) pow2_pos [of "k - 52"] by simp
  then show ?thesis
    using round_double_eval [OF assms(1-3)] assms(4) by simp
qed

lemma round_double_error: "\<bar>round_double x - x\<bar> \<le> pow2 (double_exponent x) / 2"
proof (cases "x = 0")
  case True
  then show ?thesis by (simp add: round_double_def less_imp_le)
next
  case False
  let ?p = "pow2 (double_exponent x)"
  have p: "0 < ?p" by simp
  have "round_double x - x = (of_int (round_even (x / ?p)) - x / ?p) * ?p"
    using False p by (simp add: round_double_def field_simps)
  then have "\<bar>round_double x - x\<bar> = \<bar>of_int (round_even (x / ?p)) - x / ?p\<bar> * ?p"
    using p by (simp add: abs_mult abs_of_pos)
  also have "\<dots> \<le> (1 / 2) * ?p"
    using round_even_error [of "x / ?p"] less_imp_le [OF p] by (intro mult_right_mono) simp_all
  finally show ?thesis by simp
qed

lemma round_double_5: "round_double 5 = 5"
  by (rule round_double_exact [where k = 2 and m = "5 * 2 ^ 50"]) (simp_all add: pow2_def)

lemma round_double_6: "round_double 6 = 6"
  by (rule round_double_exact [where k = 2 and m = "6 * 2 ^ 50"]) (simp_all add: pow2_def)

lemma round_double_3: "round_double 3 = 3"
  by (rule round_double_exact [where k = 1 and m = "3 * 2 ^ 51"]) (simp_all add: pow2_def)

lemma round_double_tenth: "round_double tenth = tenth"
  by (rule round_double_exact [where k = "-4" and m = "3602879701896397 * 2"])
     (simp_all add: pow2_def tenth_def)

lemma double_add_tenths:
  "double_add tenth seven_tenths = 7205759403792793 / 9007199254740992"
proof -
  have "round_double (tenth + seven_tenths)
      = of_int (round_even ((tenth + seven_tenths) / pow2 (- 1 - 52))) * pow2 (- 1 - 52)"
    by (rule round_double_eval) (simp_all add: pow2_def tenth_def seven_tenths_def)
  also have "(tenth + seven_tenths) / pow2 (- 1 - 52) = 28823037615171173 / 4"
    by (simp add: pow2_def tenth_def seven_tenths_def)
  also have "round_even (28823037615171173 / 4) = 7205759403792793"
    by (simp add: round_even_def Let_def)
  finally show ?thesis by (simp add: double_add_def pow2_def)
qed

lemma round_double_2: "round_double 2 = 2"
  by (rule round_double_exact [where k = 1 and m = "2 ^ 52"]) (simp_all add: pow2_def)

lemma double_add_1_1 [simp]: "double_add 1 1 = 2"
  by (simp add: double_add_def round_double_2)

lemma double_add_0_5 [simp]: "double_add 0 5 = 5"
  by (simp add: double_add_def round_double_5)

lemma double_add_5_1 [simp]: "double_add 5 1 = 6"
  by (simp add: double_add_def round_double_6)

lemma double_add_2_1 [simp]: "double_add 2 1 = 3"
  by (simp add: double_add_def round_double_3)

lemma double_add_0_tenth [simp]: "double_add 0 tenth = tenth"
  by (simp add: double_add_def round_double_tenth)

section \<open>Flushing the playback\<close>

lemma forEach_stop:
  "forEach (\<lambda>source. try_catch (on_node stop_node source) ignore) xs s
     = Inr (s\<lparr>nodes := fold try_stop xs (nodes s)\<rparr>)"
proof (induction xs arbitrary: s)
  case Nil
  show ?case by simp
next
  case (Cons x xs)
  have body: "try_catch (on_node stop_node x) ignore s = Inr (s\<lparr>nodes := try_stop x (nodes s)\<rparr>)"
    by (simp add: try_catch_def on_node_def ignore_def try_stop_def split: sum.splits)
  show ?case
    by (simp add: body Cons.IH)
qed

lemma stopAudioOutput_eq:
  "stopAudioOutput s
     = Inr (s\<lparr>nodes := fold try_stop (audioSourcesRef s) (nodes s),
              audioSourcesRef := [], nextStartTimeRef := 0\<rparr>)"
  by (simp add: stopAudioOutput_def then_do_def forEach_stop pure_step_def)

lemma length_try_stop [simp]: "length (try_stop i ns) = length ns"
  by (simp add: try_stop_def split: sum.splits)

lemma length_fold_try_stop [simp]: "length (fold try_stop xs ns) = length ns"
  by (induction xs arbitrary: ns) simp_all

lemma try_stop_not_playing:
  "j < length ns \<Longrightarrow> \<not> playing (ns ! j) \<Longrightarrow> \<not> playing (try_stop i ns ! j)"
  by (auto simp: try_stop_def playing_def stop_node_def nth_list_update split: sum.splits if_splits)

lemma try_stop_stops: "i < length ns \<Longrightarrow> \<not> playing (try_stop i ns ! i)"
  by (auto simp: try_stop_def playing_def stop_node_def split: sum.splits if_splits)

lemma fold_try_stop_not_playing:
  "j < length ns \<Longrightarrow> \<not> playing (ns ! j) \<Longrightarrow> \<not> playing (fold try_stop xs ns ! j)"
  by (induction xs arbitrary: ns) (simp_all add: try_stop_not_playing)

lemma fold_try_stop_stops:
  "i \<in> set xs \<Longrightarrow> i < length ns \<Longrightarrow> \<not> playing (fold try_stop xs ns ! i)"
proof (induction xs arbitrary: ns)
  case Nil
  then show ?case by simp
next
  case (Cons x xs)
  show ?case
  proof (cases "i = x")
    case True
    with Cons.prems show ?thesis
      by (simp add: fold_try_stop_not_playing try_stop_stops)
  next
    case False
    with Cons show ?thesis by simp
  qed
qed

lemma try_stop_startedAt [simp]:
  "j < length ns \<Longrightarrow> startedAt (try_stop i ns ! j) = startedAt (ns ! j)"
  by (auto simp: try_stop_def stop_node_def nth_list_update split: sum.splits if_splits)

lemma try_stop_buffer [simp]:
  "j < length ns \<Longrightarrow> buffer (try_stop i ns ! j) = buffer (ns ! j)"
  by (auto simp: try_stop_def stop_node_def nth_list_update split: sum.splits if_splits)

lemma scheduled_cong:
  "length ns = length ms \<Longrightarrow>
   \<forall>j < length ns. startedAt (ns ! j) = startedAt (ms ! j) \<and> buffer (ns ! j) = buffer (ms ! j) \<Longrightarrow>
   scheduled ns = scheduled ms"
proof (induction ns arbitrary: ms)
  case Nil
  then show ?case by simp
next
  case (Cons n ns)
  then obtain m ms' where ms: "ms = m # ms'" by (cases ms) auto
  from Cons.prems(2) have hd: "startedAt n = startedAt m \<and> buffer n = buffer m"
    unfolding ms by (metis length_greater_0_conv list.simps(3) nth_Cons_0)
  have tl: "\<forall>j < length ns. startedAt (ns ! j) = startedAt (ms' ! j) \<and> buffer (ns ! j) = buffer (ms' ! j)"
    using Cons.prems(2) unfolding ms by (metis Suc_less_eq length_Cons nth_Cons_Suc)
  have "scheduled ns = scheduled ms'"
    using Cons.IH [of ms'] Cons.prems(1) tl unfolding ms by simp
  with hd show ?case unfolding ms by (simp split: option.splits)
qed

lemma scheduled_try_stop [simp]: "scheduled (try_stop i ns) = scheduled ns"
  by (rule scheduled_cong) simp_all

lemma scheduled_fold_try_stop [simp]: "scheduled (fold try_stop xs ns) = scheduled ns"
  by (induction xs arbitrary: ns) simp_all

text \<open>
  Claim C6. \<open>stopAudioOutput\<close> (the flush) completes in every state, whatever the set
  holds, and leaves the set of sources empty and the cursor at 0; the stop of a single
  member inside its \<open>try\<close> completes too, also on a node that has already finished.
\<close>

theorem flush_clears:
  "(\<exists>s'. stopAudioOutput s = Inr s' \<and> audioSourcesRef s' = [] \<and> nextStartTimeRef s' = 0)
   \<and> (\<exists>s'. try_catch (on_node stop_node source) ignore s = Inr s')"
  by (simp add: stopAudioOutput_eq try_catch_def on_node_def ignore_def split: sum.splits)

theorem flush_clears_witness:
  "ended (nodes finished_in_set ! 0) \<and> audioSourcesRef finished_in_set = [0]
   \<and> (\<exists>s'. stopAudioOutput finished_in_set = Inr s' \<and> audioSourcesRef s' = []
            \<and> nextStartTimeRef s' = 0)
   \<and> (\<exists>s'. try_catch (on_node stop_node 0) ignore finished_in_set = Inr s')"
  using flush_clears [of finished_in_set 0]
  by (simp add: finished_in_set_def initial_def)

lemma fold_try_stop_startedAt [simp]:
  "j < length ns \<Longrightarrow> startedAt (fold try_stop xs ns ! j) = startedAt (ns ! j)"
  by (induction xs arbitrary: ns) simp_all

lemma set_add_member [simp]: "x \<in> set (set_add x xs)"
  by (simp add: set_add_def)

lemma set_add_subset: "y \<in> set xs \<Longrightarrow> y \<in> set (set_add x xs)"
  by (simp add: set_add_def)

section \<open>The message handler\<close>

lemma schedule_source_eq:
  "schedule_source audioBuffer s =
     (if nextStartTimeRef s < 0 then Inl (Exn ''RangeError'', createBufferSource audioBuffer s)
      else Inr (s\<lparr>nodes := nodes s @ [\<lparr>buffer = audioBuffer, startedAt = Some (nextStartTimeRef s),
                                         stopped = False, ended = False\<rparr>],
                  nextStartTimeRef := double_add (nextStartTimeRef s) (duration audioBuffer),
                  audioSourcesRef := set_add (length (nodes s)) (audioSourcesRef s)\<rparr>))"
  by (simp add: schedule_source_def enqueue_statements_def then_do_def pure_step_def
      on_node_def start_node_def createBufferSource_def)

lemma onmessage_audio:
  assumes "inlineData msg \<noteq> None" "inlineData msg \<noteq> Some []" "\<not> interrupted msg"
  shows "onmessage currentTime decoded msg s =
     (let s1 = s\<lparr>nextStartTimeRef := max (nextStartTimeRef s) currentTime\<rparr> in
      case decoded of
        Inl e \<Rightarrow> Inr (console_write ''Error decoding audio chunk'' s1)
      | Inr audioBuffer \<Rightarrow>
          (if nextStartTimeRef s1 < 0
           then Inr (console_write ''Error decoding audio chunk'' (createBufferSource audioBuffer s1))
           else Inr (s1\<lparr>nodes := nodes s @ [\<lparr>buffer = audioBuffer, startedAt = Some (nextStartTimeRef s1),
                                         stopped = False, ended = False\<rparr>],
                  nextStartTimeRef := double_add (nextStartTimeRef s1) (duration audioBuffer),
                  audioSourcesRef := set_add (length (nodes s)) (audioSourcesRef s)\<rparr>)))"
  using assms
  by (auto simp: onmessage_def then_do_def try_catch_def pure_step_def schedule_source_eq Let_def
      split: sum.splits)

lemma after_audio_eq:
  "after_audio currentTime decoded s =
     (let s1 = s\<lparr>nextStartTimeRef := max (nextStartTimeRef s) currentTime\<rparr> in
      case decoded of
        Inl e \<Rightarrow> console_write ''Error decoding audio chunk'' s1
      | Inr audioBuffer \<Rightarrow>
          (if nextStartTimeRef s1 < 0
           then console_write ''Error decoding audio chunk'' (createBufferSource audioBuffer s1)
           else s1\<lparr>nodes := nodes s @ [\<lparr>buffer = audioBuffer, startedAt = Some (nextStartTimeRef s1),
                                         stopped = False, ended = False\<rparr>],
                  nextStartTimeRef := double_add (nextStartTimeRef s1) (duration audioBuffer),
                  audioSourcesRef := set_add (length (nodes s)) (audioSourcesRef s)\<rparr>))"
  by (auto simp: after_audio_def then_do_def try_catch_def pure_step_def schedule_source_eq Let_def
      split: sum.splits)

lemma onmessage_payload:
  assumes "inlineData msg \<noteq> None" "inlineData msg \<noteq> Some []"
  shows "onmessage currentTime decoded msg s =
     (if interrupted msg
      then stopAudioOutput (console_write ''Interrupted by user'' (after_audio currentTime decoded s))
      else Inr (after_audio currentTime decoded s))"
  using assms
  by (auto simp: onmessage_def after_audio_def then_do_def try_catch_def pure_step_def
      schedule_source_eq split: sum.splits)

lemma onmessage_no_payload:
  assumes "inlineData msg = None \<or> inlineData msg = Some []"
  shows "onmessage currentTime decoded msg s =
     (if interrupted msg then stopAudioOutput (console_write ''Interrupted by user'' s) else Inr s)"
  using assms
  by (auto simp: onmessage_def then_do_def pure_step_def)

lemma after_audio_failed:
  "after_audio currentTime (Inl e) s =
     console_write ''Error decoding audio chunk''
       (s\<lparr>nextStartTimeRef := max (nextStartTimeRef s) currentTime\<rparr>)"
  by (simp add: after_audio_eq)

lemma after_audio_playback:
  assumes "nodes s' = nodes s" "audioSourcesRef s' = audioSourcesRef s"
    "max (nextStartTimeRef s') t = max (nextStartTimeRef s) t"
  shows "playback_of (after_audio t decoded s') = playback_of (after_audio t decoded s)"
  using assms
  by (cases decoded)
     (simp_all add: after_audio_eq playback_of_def Let_def console_write_def createBufferSource_def)

lemma onmessage_playback:
  assumes "inlineData msg \<noteq> None" "inlineData msg \<noteq> Some []"
    "nodes s' = nodes s" "audioSourcesRef s' = audioSourcesRef s"
    "max (nextStartTimeRef s') t = max (nextStartTimeRef s) t"
  shows "playback_of (state_of (onmessage t decoded msg s'))
           = playback_of (state_of (onmessage t decoded msg s))"
proof -
  have pb: "playback_of (after_audio t decoded s') = playback_of (after_audio t decoded s)"
    using assms(3-5) by (rule after_audio_playback)
  then show ?thesis
    by (simp add: onmessage_payload [OF assms(1,2)] stopAudioOutput_eq playback_of_def console_write_def)
qed

subsection \<open>Evaluating concrete runs\<close>

lemmas eval_defs =
  step_def connectToGemini_def try_catch_def then_do_def pure_step_def onopen_def onclose_def
  onerror_def disconnect_def disconnect_sync_def disconnect_resume_def session_close_def
  stopAudioInput_def stopAudioOutput_eq try_stop_def stop_node_def onmessage_def
  schedule_source_eq set_add_def set_delete_def console_write_def toggleMic_def
  onaudioprocess_def source_ended_def createBufferSource_def Let_def

lemma in_call_eq:
  "in_call = \<lparr> connectionState = Connected, isMicOn = True, errorMsg = None,
      streamRef = Some 1, sourceRef = Some 1, processorRef = Some \<lparr>p_isMicOn = True\<rparr>,
      nextStartTimeRef = 0, audioSourcesRef = [],
      sessionPromiseRef = Some (Fulfilled (Session None)),
      nodes = [], outbox = [], console = [''Gemini Live Connected''], closeCalls = 0,
      liveCallbacks = Some \<lparr>c_isMicOn = True, c_stream = 1\<rparr>, uncaught = [] \<rparr>"
  by (simp add: in_call_def initial_def env_ok_def eval_defs)

lemma in_call_playing_eq:
  "in_call_playing = in_call\<lparr> nextStartTimeRef := 5, audioSourcesRef := [0],
      nodes := [\<lparr>buffer = \<lparr>duration = 5\<rparr>, startedAt = Some 0, stopped = False, ended = False\<rparr>] \<rparr>"
  by (simp add: in_call_playing_def in_call_eq audio_msg_def eval_defs)

section \<open>Scheduling of inbound audio\<close>

text \<open>
  The handler is its two parts in sequence; the part after the \<open>await\<close> is the whole
  handler run at a clock reading equal to the cursor. Both parts keep the schedule free
  of overlap on their own, so this does not depend on what runs between them.
\<close>

lemma onmessage_phases:
  "onmessage currentTime decoded msg s
     = onmessage_resume decoded msg (onmessage_begin currentTime msg s)"
  by (auto simp: onmessage_def onmessage_resume_def onmessage_begin_def then_do_def try_catch_def
      pure_step_def split: sum.splits)

lemma onmessage_resume_eq:
  "onmessage_resume decoded msg s = onmessage (nextStartTimeRef s) decoded msg s"
  by (simp add: onmessage_phases onmessage_begin_def)

lemma onmessage_completes: "\<exists>s'. onmessage currentTime decoded msg s = Inr s'"
proof (cases "inlineData msg = None \<or> inlineData msg = Some []")
  case True
  then show ?thesis by (simp add: onmessage_no_payload stopAudioOutput_eq)
next
  case False
  then have m: "inlineData msg \<noteq> None" "inlineData msg \<noteq> Some []" by simp_all
  show ?thesis by (simp add: onmessage_payload [OF m] stopAudioOutput_eq)
qed

lemma step_as_halves:
  assumes "liveCallbacks s \<noteq> None"
  shows "step (RemoteMessage currentTime decoded msg) s
           = run_halves (halves_of (RemoteMessage currentTime decoded msg)) s"
proof -
  from assms obtain c where c: "liveCallbacks s = Some c" by auto
  from onmessage_completes obtain s' where s': "onmessage currentTime decoded msg s = Inr s'"
    by blast
  then have "state_of (onmessage_resume decoded msg (onmessage_begin currentTime msg s)) = s'"
    by (simp add: onmessage_phases [symmetric])
  then show ?thesis by (simp add: step_def c s')
qed

lemma scheduled_append [simp]: "scheduled (xs @ ys) = scheduled xs @ scheduled ys"
  by (induction xs) (simp_all split: option.splits)

lemma non_overlapping_rounded_snoc:
  "non_overlapping_rounded (us @ [(t, d)]) = (non_overlapping_rounded us \<and> ends_by us t)"
proof (induction us rule: non_overlapping_rounded.induct)
  case 1
  show ?case by (simp add: ends_by_def)
next
  case (2 u)
  show ?case by (cases u) (simp add: ends_by_def)
next
  case (3 t1 d1 t2 d2 rest)
  then show ?case by (simp add: ends_by_def)
qed

lemma rounded_within: "non_overlapping_rounded us \<Longrightarrow> overlap_within_rounding us"
proof (induction us rule: non_overlapping_rounded.induct)
  case 1
  show ?case by simp
next
  case (2 u)
  show ?case by simp
next
  case (3 t1 d1 t2 d2 rest)
  have "t1 + d1 - t2 \<le> t1 + d1 - round_double (t1 + d1)"
    using "3.prems" by (simp add: double_add_def)
  also have "\<dots> \<le> pow2 (double_exponent (t1 + d1)) / 2"
    using round_double_error [of "t1 + d1"] by linarith
  finally show ?case using 3 by simp
qed

lemma ends_by_mono: "ends_by us t \<Longrightarrow> t \<le> t' \<Longrightarrow> ends_by us t'"
  by (auto simp: ends_by_def)

lemma ends_by_snoc [simp]: "ends_by (us @ [(t, d)]) t' = (double_add t d \<le> t')"
  by (simp add: ends_by_def)

lemma begin_schedule_ok:
  "schedule_ok_from k s \<Longrightarrow> schedule_ok_from k (onmessage_begin currentTime msg s)"
  by (auto simp: schedule_ok_from_def onmessage_begin_def elim: ends_by_mono)

lemma after_audio_schedule_ok:
  assumes "schedule_ok_from k s"
  shows "schedule_ok_from k (after_audio currentTime decoded s)"
proof -
  have ok: "k \<le> length (nodes s)" "non_overlapping_rounded (scheduled (drop k (nodes s)))"
    "ends_by (scheduled (drop k (nodes s))) (nextStartTimeRef s)"
    using assms by (simp_all add: schedule_ok_from_def)
  have up: "ends_by (scheduled (drop k (nodes s))) (max (nextStartTimeRef s) currentTime)"
    using ok(3) by (rule ends_by_mono) simp
  show ?thesis
    using ok(1,2) up
    by (cases decoded)
       (simp_all add: after_audio_eq Let_def schedule_ok_from_def console_write_def
          createBufferSource_def non_overlapping_rounded_snoc)
qed

lemma resume_schedule_ok:
  assumes "\<not> interrupted msg" "schedule_ok_from k s"
  shows "schedule_ok_from k (state_of (onmessage_resume decoded msg s))"
proof (cases "inlineData msg = None \<or> inlineData msg = Some []")
  case True
  then show ?thesis
    using assms by (simp add: onmessage_resume_eq onmessage_no_payload)
next
  case False
  then have m: "inlineData msg \<noteq> None" "inlineData msg \<noteq> Some []" by simp_all
  show ?thesis
    using assms(1) after_audio_schedule_ok [OF assms(2)]
    by (simp add: onmessage_resume_eq onmessage_payload [OF m])
qed

lemma half_schedule_ok:
  "calm h \<Longrightarrow> schedule_ok_from k s \<Longrightarrow> schedule_ok_from k (half_step h s)"
  by (cases h) (simp_all add: begin_schedule_ok resume_schedule_ok)

lemma run_halves_schedule_ok:
  "list_all calm hs \<Longrightarrow> schedule_ok_from k s \<Longrightarrow> schedule_ok_from k (run_halves hs s)"
proof (induction hs arbitrary: s)
  case Nil
  then show ?case by simp
next
  case (Cons h hs)
  have "schedule_ok_from k (half_step h s)"
    using Cons.prems by (simp add: half_schedule_ok)
  then show ?case
    using Cons.IH [of "half_step h s"] Cons.prems by simp
qed

lemma run_halves_append: "run_halves (hs @ hs') s = run_halves hs' (run_halves hs s)"
  by (induction hs arbitrary: s) simp_all

lemma settled_starts_at_cursor:
  assumes "inlineData msg \<noteq> None" "inlineData msg \<noteq> Some []" "\<not> interrupted msg"
    and "0 \<le> nextStartTimeRef s"
  shows "scheduled (nodes (half_step (Settled (Inr audioBuffer) msg) s))
           = scheduled (nodes s) @ [(nextStartTimeRef s, duration audioBuffer)]
    \<and> nextStartTimeRef (half_step (Settled (Inr audioBuffer) msg) s)
           = double_add (nextStartTimeRef s) (duration audioBuffer)"
  using assms(3,4)
  by (auto simp: onmessage_resume_eq onmessage_payload [OF assms(1,2)] after_audio_eq Let_def)

lemma arrival_raises_cursor:
  assumes "inlineData msg \<noteq> None" "inlineData msg \<noteq> Some []"
  shows "half_step (Arrival currentTime msg) s
           = s\<lparr>nextStartTimeRef := max (nextStartTimeRef s) currentTime\<rparr>"
  using assms by (auto simp: onmessage_begin_def)

lemma step_audio:
  assumes "liveCallbacks s \<noteq> None" "is_audio_message ev"
  shows "\<exists>currentTime decoded msg.
           ev = RemoteMessage currentTime decoded msg \<and> step ev s = after_audio currentTime decoded s"
proof -
  from assms(2) obtain currentTime decoded msg where ev: "ev = RemoteMessage currentTime decoded msg"
    by (cases ev) simp_all
  with assms(2) have m: "inlineData msg \<noteq> None" "inlineData msg \<noteq> Some []" "\<not> interrupted msg"
    by simp_all
  from assms(1) obtain c where c: "liveCallbacks s = Some c" by auto
  have "step ev s = after_audio currentTime decoded s"
    using m(3) by (simp add: ev c step_def onmessage_payload [OF m(1,2)])
  with ev show ?thesis by blast
qed

lemma after_audio_callbacks [simp]:
  "liveCallbacks (after_audio currentTime decoded s) = liveCallbacks s"
  by (cases decoded) (simp_all add: after_audio_eq Let_def console_write_def createBufferSource_def)

lemma after_audio_length: "length (nodes s) \<le> length (nodes (after_audio currentTime decoded s))"
  by (cases decoded) (simp_all add: after_audio_eq Let_def console_write_def createBufferSource_def)

lemma after_audio_enqueue:
  assumes "0 \<le> currentTime" "k \<le> length (nodes s)"
  shows "scheduled (drop k (nodes (after_audio currentTime (Inr audioBuffer) s)))
           = scheduled (drop k (nodes s)) @ [(max (nextStartTimeRef s) currentTime, duration audioBuffer)]
    \<and> nextStartTimeRef (after_audio currentTime (Inr audioBuffer) s)
           = double_add (max (nextStartTimeRef s) currentTime) (duration audioBuffer)"
  using assms by (auto simp: after_audio_eq Let_def)

lemma run_as_halves:
  "liveCallbacks s \<noteq> None \<Longrightarrow> list_all is_audio_message evs \<Longrightarrow>
   run evs s = run_halves (concat (map halves_of evs)) s"
proof (induction evs arbitrary: s)
  case Nil
  then show ?case by simp
next
  case (Cons ev evs)
  have a: "is_audio_message ev" using Cons.prems(2) by simp
  from step_audio [OF Cons.prems(1) a] obtain currentTime decoded msg
    where ev: "ev = RemoteMessage currentTime decoded msg"
      and st: "step ev s = after_audio currentTime decoded s"
    by blast
  have cb: "liveCallbacks (step ev s) \<noteq> None"
    using Cons.prems(1) by (simp add: st)
  have "run evs (step ev s) = run_halves (concat (map halves_of evs)) (step ev s)"
    using Cons.IH [OF cb] Cons.prems(2) by simp
  moreover have "step ev s = run_halves (halves_of ev) s"
    unfolding ev by (rule step_as_halves [OF Cons.prems(1)])
  ultimately show ?case
    by (simp add: run_halves_append)
qed

lemma run_enqueue:
  "liveCallbacks s \<noteq> None \<Longrightarrow> list_all is_audio_message evs \<Longrightarrow> list_all is_enqueue evs \<Longrightarrow>
   k \<le> length (nodes s) \<Longrightarrow>
   scheduled (drop k (nodes (run evs s)))
     = scheduled (drop k (nodes s)) @ spec_enqueue_all (nextStartTimeRef s) (map request evs)"
proof (induction evs arbitrary: s)
  case Nil
  then show ?case by simp
next
  case (Cons ev evs)
  have a: "is_audio_message ev" using Cons.prems(2) by simp
  from step_audio [OF Cons.prems(1) a] obtain currentTime decoded msg
    where ev: "ev = RemoteMessage currentTime decoded msg"
      and st: "step ev s = after_audio currentTime decoded s"
    by blast
  from Cons.prems(3) ev obtain audioBuffer where d: "decoded = Inr audioBuffer" and t: "0 \<le> currentTime"
    by (cases decoded) simp_all
  have cb: "liveCallbacks (step ev s) \<noteq> None"
    using Cons.prems(1) by (simp add: st)
  have k: "k \<le> length (nodes (step ev s))"
    using Cons.prems(4) after_audio_length [of s currentTime decoded] by (simp add: st)
  have "scheduled (drop k (nodes (run evs (step ev s)))) =
        scheduled (drop k (nodes (step ev s)))
          @ spec_enqueue_all (nextStartTimeRef (step ev s)) (map request evs)"
    using Cons.IH [OF cb _ _ k] Cons.prems by simp
  moreover have "request ev = (currentTime, duration audioBuffer)"
    by (simp add: ev d)
  ultimately show ?case
    using after_audio_enqueue [OF t Cons.prems(4), of audioBuffer]
    by (simp add: st d)
qed

lemma schedule_ok_from_length: "schedule_ok_from (length (nodes s)) s"
  by (simp add: schedule_ok_from_def ends_by_def)

text \<open>
  Claim C1, as amended. Take the two parts of the handlers of any inbound messages
  without interruption, in any order, from any state of the scheduler. The units they
  start satisfy \<open>start(i+1) \<ge> start(i) \<oplus> d(i)\<close>, with \<open>\<oplus>\<close> the sum of doubles the program
  computes; the exact \<open>start(i) + d(i)\<close> exceeds \<open>start(i+1)\<close> by no more than half a unit
  in its last place; and all units of the store satisfy the first when those already
  there did and the cursor was not before their end. A unit starts at the value the
  cursor has when its decode settles and moves the cursor to \<open>start \<oplus> d\<close>; the arrival of
  its message had raised the cursor to \<open>max(nextStartTime, outputClockNow())\<close>. When every
  message is handled with nothing running during its decode, every payload decodes and
  no clock reading is negative, the units started are those of the specification's
  \<open>enqueue\<close>: each starts at \<open>max(nextStartTime, outputClockNow())\<close>.
\<close>

theorem scheduler_non_overlap:
  "(list_all calm hs \<longrightarrow>
      non_overlapping_rounded (scheduled (drop (length (nodes s)) (nodes (run_halves hs s))))
      \<and> overlap_within_rounding (scheduled (drop (length (nodes s)) (nodes (run_halves hs s))))
      \<and> (schedule_ok_from 0 s \<longrightarrow> non_overlapping_rounded (scheduled (nodes (run_halves hs s)))))
   \<and> (inlineData msg \<noteq> None \<and> inlineData msg \<noteq> Some [] \<and> \<not> interrupted msg
        \<and> 0 \<le> nextStartTimeRef s \<longrightarrow>
        scheduled (nodes (half_step (Settled (Inr audioBuffer) msg) s))
          = scheduled (nodes s) @ [(nextStartTimeRef s, duration audioBuffer)]
        \<and> nextStartTimeRef (half_step (Settled (Inr audioBuffer) msg) s)
          = double_add (nextStartTimeRef s) (duration audioBuffer)
        \<and> nextStartTimeRef (half_step (Arrival currentTime msg) s)
          = max (nextStartTimeRef s) currentTime)
   \<and> (liveCallbacks s \<noteq> None \<and> list_all is_audio_message evs \<longrightarrow>
        run evs s = run_halves (concat (map halves_of evs)) s
        \<and> (list_all is_enqueue evs \<longrightarrow>
             scheduled (drop (length (nodes s)) (nodes (run evs s)))
               = spec_enqueue_all (nextStartTimeRef s) (map request evs)))"
proof -
  have new: "non_overlapping_rounded (scheduled (drop (length (nodes s)) (nodes (run_halves hs s))))"
    if "list_all calm hs"
    using run_halves_schedule_ok [OF that schedule_ok_from_length]
    by (simp add: schedule_ok_from_def)
  have all: "non_overlapping_rounded (scheduled (nodes (run_halves hs s)))"
    if "list_all calm hs" "schedule_ok_from 0 s"
    using run_halves_schedule_ok [OF that]
    by (simp add: schedule_ok_from_def)
  have half: "scheduled (nodes (half_step (Settled (Inr audioBuffer) msg) s))
          = scheduled (nodes s) @ [(nextStartTimeRef s, duration audioBuffer)]
        \<and> nextStartTimeRef (half_step (Settled (Inr audioBuffer) msg) s)
          = double_add (nextStartTimeRef s) (duration audioBuffer)
        \<and> nextStartTimeRef (half_step (Arrival currentTime msg) s)
          = max (nextStartTimeRef s) currentTime"
    if "inlineData msg \<noteq> None" "inlineData msg \<noteq> Some []" "\<not> interrupted msg"
      "0 \<le> nextStartTimeRef s"
    using settled_starts_at_cursor [OF that, of audioBuffer]
      arrival_raises_cursor [OF that(1,2), of currentTime s]
    by simp
  have atomic: "run evs s = run_halves (concat (map halves_of evs)) s"
    if "liveCallbacks s \<noteq> None" "list_all is_audio_message evs"
    using that by (rule run_as_halves)
  have spec: "scheduled (drop (length (nodes s)) (nodes (run evs s)))
           = spec_enqueue_all (nextStartTimeRef s) (map request evs)"
    if "liveCallbacks s \<noteq> None" "list_all is_audio_message evs" "list_all is_enqueue evs"
    using run_enqueue [OF that, of "length (nodes s)"] by simp
  from new all half atomic spec rounded_within show ?thesis by blast
qed

theorem scheduler_non_overlap_witness:
  "list_all calm crossed_halves \<and> schedule_ok_from 0 in_call_playing
   \<and> inlineData audio_msg \<noteq> None \<and> inlineData audio_msg \<noteq> Some [] \<and> \<not> interrupted audio_msg
   \<and> 0 \<le> nextStartTimeRef in_call_playing
   \<and> liveCallbacks in_call_playing \<noteq> None
   \<and> list_all is_audio_message two_chunks \<and> list_all is_enqueue two_chunks
   \<and> non_overlapping_rounded (scheduled (nodes (run_halves crossed_halves in_call_playing)))
   \<and> scheduled (nodes (run_halves crossed_halves in_call_playing)) = [(0, 5), (5, 1), (6, 1)]
   \<and> scheduled (nodes (half_step (Settled (Inr \<lparr>duration = 1\<rparr>) audio_msg) in_call_playing))
        = [(0, 5), (5, 1)]
   \<and> nextStartTimeRef (half_step (Settled (Inr \<lparr>duration = 1\<rparr>) audio_msg) in_call_playing) = 6
   \<and> nextStartTimeRef (half_step (Arrival 7 audio_msg) in_call_playing) = 7
   \<and> scheduled (drop 1 (nodes (run two_chunks in_call_playing))) = [(5, 1), (6, 3 / 2)]"
proof -
  have p: "list_all calm crossed_halves" "schedule_ok_from 0 in_call_playing"
    by (simp_all add: crossed_halves_def audio_msg_def in_call_playing_eq in_call_eq
        schedule_ok_from_def ends_by_def)
  have q: "inlineData audio_msg \<noteq> None" "inlineData audio_msg \<noteq> Some []" "\<not> interrupted audio_msg"
    "0 \<le> nextStartTimeRef in_call_playing"
    by (simp_all add: audio_msg_def in_call_playing_eq in_call_eq)
  have r: "liveCallbacks in_call_playing \<noteq> None" "list_all is_audio_message two_chunks"
    "list_all is_enqueue two_chunks"
    by (simp_all add: in_call_playing_eq in_call_eq two_chunks_def audio_msg_def)
  have n: "nodes in_call_playing
             = [\<lparr>buffer = \<lparr>duration = 5\<rparr>, startedAt = Some 0, stopped = False, ended = False\<rparr>]"
    "nextStartTimeRef in_call_playing = 5"
    by (simp_all add: in_call_playing_eq in_call_eq)
  note inst = scheduler_non_overlap [of crossed_halves in_call_playing audio_msg "\<lparr>duration = 1\<rparr>" 7 two_chunks]
  have a: "non_overlapping_rounded (scheduled (nodes (run_halves crossed_halves in_call_playing)))"
    using inst p by blast
  have b: "scheduled (nodes (half_step (Settled (Inr \<lparr>duration = 1\<rparr>) audio_msg) in_call_playing))
          = scheduled (nodes in_call_playing) @ [(nextStartTimeRef in_call_playing, duration \<lparr>duration = 1\<rparr>)]"
    "nextStartTimeRef (half_step (Settled (Inr \<lparr>duration = 1\<rparr>) audio_msg) in_call_playing)
          = double_add (nextStartTimeRef in_call_playing) (duration \<lparr>duration = 1\<rparr>)"
    "nextStartTimeRef (half_step (Arrival 7 audio_msg) in_call_playing)
          = max (nextStartTimeRef in_call_playing) 7"
    using inst q by blast+
  have c: "scheduled (drop (length (nodes in_call_playing)) (nodes (run two_chunks in_call_playing)))
               = spec_enqueue_all (nextStartTimeRef in_call_playing) (map request two_chunks)"
    using inst r by blast
  have d: "scheduled (nodes (run_halves crossed_halves in_call_playing)) = [(0, 5), (5, 1), (6, 1)]"
    by (simp add: crossed_halves_def audio_msg_def in_call_playing_eq in_call_eq
        onmessage_begin_def onmessage_resume_eq onmessage_audio Let_def)
  show ?thesis
    using p q r a b c d by (simp add: n two_chunks_def)
qed

theorem scheduler_exact_sum_counterexample:
  "scheduled (nodes (run three_units in_call))
     = [(0, tenth), (tenth, seven_tenths), (7205759403792793 / 9007199254740992, tenth)]
   \<and> 7205759403792793 / 9007199254740992 < tenth + seven_tenths
   \<and> \<not> non_overlapping (scheduled (nodes (run three_units in_call)))
   \<and> nextStartTimeRef in_call = 0
   \<and> scheduled (nodes (run_halves crossed_halves in_call)) = [(2, 1), (3, 1)]
   \<and> spec_enqueue_all 0 [(1, 1), (2, 1)] = [(1, 1), (2, 1)]"
proof -
  have t: "0 \<le> tenth" "0 \<le> seven_tenths" "\<not> tenth < 0"
    by (simp_all add: tenth_def seven_tenths_def)
  have a: "scheduled (nodes (run three_units in_call))
     = [(0, tenth), (tenth, seven_tenths), (7205759403792793 / 9007199254740992, tenth)]"
    using t by (simp add: three_units_def audio_msg_def in_call_eq step_def onmessage_audio Let_def
         double_add_tenths max_def)
  have b: "7205759403792793 / 9007199254740992 < tenth + seven_tenths"
    by (simp add: tenth_def seven_tenths_def)
  have c: "scheduled (nodes (run_halves crossed_halves in_call)) = [(2, 1), (3, 1)]"
    by (simp add: crossed_halves_def audio_msg_def in_call_eq
        onmessage_begin_def onmessage_resume_eq onmessage_audio Let_def)
  have d: "spec_enqueue_all 0 [(1, 1), (2, 1)] = [(1, 1), (2, 1)]"
    by simp
  have e: "\<not> non_overlapping (scheduled (nodes (run three_units in_call)))"
    using b by (simp add: a)
  have f: "nextStartTimeRef in_call = 0"
    by (simp add: in_call_eq)
  from a b e f c d show ?thesis by blast
qed

section \<open>Mute\<close>

lemma tick_reads_captured_flag:
  "processorRef s = Some p \<Longrightarrow>
   outbox (step (CaptureTick pcmBlob) (s\<lparr>isMicOn := m\<rparr>))
     = (if p_isMicOn p then outbox s @ [pcmBlob] else outbox s)"
  by (simp add: step_def onaudioprocess_def)

text \<open>
  Claim C2. The mute flag does not reach the capture tick: the handler installed by
  \<open>onopen\<close> reads the \<open>isMicOn\<close> of the render that called \<open>connectToGemini\<close>. In a call
  opened with the microphone on, after \<open>toggleMic\<close> has set \<open>isMicOn\<close> to false the next
  capture tick still hands its chunk to \<open>sendRealtimeInput\<close>.
\<close>

theorem toggled_mute_still_sends:
  "isMicOn (step ToggleMic in_call) = False
   \<and> outbox (run [ToggleMic, CaptureTick chunk0] in_call) = [chunk0]"
  by (simp add: in_call_eq eval_defs)

section \<open>Remote error\<close>

lemma disconnect_sync_eq:
  "disconnect_sync s =
     Inr ((stopAudioInput (s\<lparr>connectionState := Disconnected\<rparr>))
            \<lparr>nodes := fold try_stop (audioSourcesRef s) (nodes s),
             audioSourcesRef := [], nextStartTimeRef := 0\<rparr>)"
  by (simp add: disconnect_sync_def then_do_def pure_step_def stopAudioOutput_eq stopAudioInput_def Let_def)

lemma stopAudioInput_refs [simp]:
  "processorRef (stopAudioInput s) = None" "sourceRef (stopAudioInput s) = None"
  "streamRef (stopAudioInput s) = None"
  by (simp_all add: stopAudioInput_def Let_def)

lemma stopAudioInput_other [simp]:
  "connectionState (stopAudioInput s) = connectionState s"
  "errorMsg (stopAudioInput s) = errorMsg s"
  "sessionPromiseRef (stopAudioInput s) = sessionPromiseRef s"
  "closeCalls (stopAudioInput s) = closeCalls s"
  "isMicOn (stopAudioInput s) = isMicOn s"
  "uncaught (stopAudioInput s) = uncaught s"
  "liveCallbacks (stopAudioInput s) = liveCallbacks s"
  "nodes (stopAudioInput s) = nodes s"
  "audioSourcesRef (stopAudioInput s) = audioSourcesRef s"
  "console (stopAudioInput s) = console s"
  "outbox (stopAudioInput s) = outbox s"
  by (simp_all add: stopAudioInput_def Let_def)

lemma disconnect_state:
  "connectionState (state_of (disconnect s)) = Disconnected
   \<and> processorRef (state_of (disconnect s)) = None
   \<and> sourceRef (state_of (disconnect s)) = None
   \<and> streamRef (state_of (disconnect s)) = None
   \<and> audioSourcesRef (state_of (disconnect s)) = []
   \<and> nextStartTimeRef (state_of (disconnect s)) = 0
   \<and> errorMsg (state_of (disconnect s)) = errorMsg s"
  by (simp add: disconnect_def then_do_def disconnect_sync_eq disconnect_resume_def
      try_catch_def session_close_def pure_step_def console_write_def Let_def
      split: option.splits SessionPromise.splits)

lemma disconnect_fulfilled:
  "sessionPromiseRef s = Some (Fulfilled session) \<Longrightarrow>
   \<exists>s'. disconnect s = Inr s' \<and> sessionPromiseRef s' = None \<and> closeCalls s' = closeCalls s + 1
        \<and> uncaught s' = uncaught s"
  by (simp add: disconnect_def then_do_def disconnect_sync_eq disconnect_resume_def
      try_catch_def session_close_def pure_step_def console_write_def Let_def
      split: option.splits)

lemma disconnect_no_session:
  "sessionPromiseRef s = None \<Longrightarrow>
   \<exists>s'. disconnect s = Inr s' \<and> sessionPromiseRef s' = None \<and> closeCalls s' = closeCalls s
       \<and> uncaught s' = uncaught s"
  by (simp add: disconnect_def then_do_def disconnect_sync_eq)

lemma disconnect_pending:
  "sessionPromiseRef s = Some Pending \<Longrightarrow>
   \<exists>s'. disconnect s = Inr s' \<and> sessionPromiseRef s' = Some Pending \<and> closeCalls s' = closeCalls s
       \<and> uncaught s' = uncaught s"
  by (simp add: disconnect_def then_do_def disconnect_sync_eq disconnect_resume_def)

lemma disconnect_rejected:
  "sessionPromiseRef s = Some (Rejected e) \<Longrightarrow>
   \<exists>s'. disconnect s = Inl (e, s') \<and> sessionPromiseRef s' = Some (Rejected e)"
  by (simp add: disconnect_def then_do_def disconnect_sync_eq disconnect_resume_def)

lemma onerror_eq:
  "onerror e s =
     disconnect ((console_write ''Session Error'' s)\<lparr>errorMsg := Some ''Connection error. Please try again.''\<rparr>)"
  by (simp add: onerror_def then_do_def pure_step_def)

text \<open>
  Claim C3, as amended. On a remote error the handler sets the fixed message
  "Connection error. Please try again." whatever the error was, and calls \<open>disconnect\<close>:
  the connection state becomes \<open>disconnected\<close>, the capture refs are released, the set
  of sources is empty and the cursor is 0; when the session promise is fulfilled the
  session is closed and its handle cleared.
\<close>

theorem remote_error_disconnects:
  "connectionState (state_of (onerror e s)) = Disconnected
   \<and> errorMsg (state_of (onerror e s)) = Some ''Connection error. Please try again.''
   \<and> processorRef (state_of (onerror e s)) = None
   \<and> sourceRef (state_of (onerror e s)) = None
   \<and> streamRef (state_of (onerror e s)) = None
   \<and> audioSourcesRef (state_of (onerror e s)) = []
   \<and> nextStartTimeRef (state_of (onerror e s)) = 0
   \<and> (\<forall>session. sessionPromiseRef s = Some (Fulfilled session) \<longrightarrow>
         (\<exists>s'. onerror e s = Inr s' \<and> sessionPromiseRef s' = None
               \<and> closeCalls s' = closeCalls s + 1))"
proof -
  let ?s0 = "(console_write ''Session Error'' s)\<lparr>errorMsg := Some ''Connection error. Please try again.''\<rparr>"
  have a: "sessionPromiseRef ?s0 = sessionPromiseRef s" "closeCalls ?s0 = closeCalls s"
    "errorMsg ?s0 = Some ''Connection error. Please try again.''"
    by (simp_all add: console_write_def)
  show ?thesis
    using disconnect_state [of ?s0] disconnect_fulfilled [of ?s0]
    by (auto simp: onerror_eq a)
qed

theorem remote_error_counterexample:
  "connectionState in_call = Connected
   \<and> connectionState (step (RemoteError (Exn ''socket failure'')) in_call) = Disconnected
   \<and> connectionState (step (RemoteError (Exn ''socket failure'')) in_call) \<noteq> Error"
  by (simp add: in_call_eq eval_defs)

theorem remote_error_disconnects_witness:
  "sessionPromiseRef in_call_playing = Some (Fulfilled (Session None))
   \<and> connectionState (state_of (onerror (Exn ''socket failure'') in_call_playing)) = Disconnected
   \<and> errorMsg (state_of (onerror (Exn ''socket failure'') in_call_playing))
        = Some ''Connection error. Please try again.''
   \<and> streamRef (state_of (onerror (Exn ''socket failure'') in_call_playing)) = None
   \<and> (\<exists>s'. onerror (Exn ''socket failure'') in_call_playing = Inr s' \<and> sessionPromiseRef s' = None
          \<and> closeCalls s' = 1)"
  using remote_error_disconnects [of "Exn ''socket failure''" in_call_playing]
  by (simp add: in_call_playing_eq in_call_eq)

section \<open>Remote open and close\<close>

text \<open>
  Claim C4, as amended. On the remote open signal the handler sets the state to
  \<open>connected\<close> and starts capture: the source and processor nodes are installed, and a
  tick sends its chunk when the microphone was on at connect time. The cursor
  \<open>nextStartTimeRef\<close> and the set of sources are left as they were.
\<close>

theorem open_starts_capture:
  "connectionState (onopen c s) = Connected
   \<and> sourceRef (onopen c s) = Some (c_stream c)
   \<and> processorRef (onopen c s) = Some \<lparr>p_isMicOn = c_isMicOn c\<rparr>
   \<and> (c_isMicOn c \<longrightarrow> outbox (step (CaptureTick pcmBlob) (onopen c s)) = outbox s @ [pcmBlob])
   \<and> nextStartTimeRef (onopen c s) = nextStartTimeRef s
   \<and> audioSourcesRef (onopen c s) = audioSourcesRef s"
  by (simp add: onopen_def console_write_def step_def onaudioprocess_def)

theorem open_cursor_counterexample:
  "connectionState (run [RemoteClose, HandleAgentSelect env_ok] in_call_playing) = Connecting
   \<and> connectionState (run [RemoteClose, HandleAgentSelect env_ok, RemoteOpen] in_call_playing) = Connected
   \<and> nextStartTimeRef (run [RemoteClose, HandleAgentSelect env_ok, RemoteOpen] in_call_playing) = 5"
  by (simp add: in_call_playing_eq in_call_eq env_ok_def eval_defs)

theorem open_starts_capture_witness:
  "c_isMicOn \<lparr>c_isMicOn = True, c_stream = 1\<rparr>
   \<and> connectionState (onopen \<lparr>c_isMicOn = True, c_stream = 1\<rparr> initial) = Connected
   \<and> outbox (step (CaptureTick chunk0) (onopen \<lparr>c_isMicOn = True, c_stream = 1\<rparr> initial)) = [chunk0]
   \<and> nextStartTimeRef (onopen \<lparr>c_isMicOn = True, c_stream = 1\<rparr> initial) = 0"
  using open_starts_capture [of "\<lparr>c_isMicOn = True, c_stream = 1\<rparr>" initial chunk0]
  by (simp add: initial_def)

text \<open>
  Claim C5. On the remote close signal during a call with a unit playing, the handler
  only sets the state to \<open>disconnected\<close>: the stream, source and processor refs stay set
  and a later capture tick still sends its chunk, the unit stays in the set and keeps
  playing, the cursor keeps its value and the session handle stays stored.
\<close>

theorem remote_close_skips_teardown:
  "connectionState (step RemoteClose in_call_playing) = Disconnected
   \<and> streamRef (step RemoteClose in_call_playing) = Some 1
   \<and> sourceRef (step RemoteClose in_call_playing) = Some 1
   \<and> processorRef (step RemoteClose in_call_playing) = Some \<lparr>p_isMicOn = True\<rparr>
   \<and> outbox (run [RemoteClose, CaptureTick chunk0] in_call_playing) = [chunk0]
   \<and> audioSourcesRef (step RemoteClose in_call_playing) = [0]
   \<and> playing (nodes (step RemoteClose in_call_playing) ! 0)
   \<and> nextStartTimeRef (step RemoteClose in_call_playing) = 5
   \<and> sessionPromiseRef (step RemoteClose in_call_playing) = Some (Fulfilled (Session None))"
  by (simp add: in_call_playing_eq in_call_eq eval_defs playing_def)

section \<open>disconnect\<close>

lemma disconnect_unless_rejected:
  assumes "\<forall>e. sessionPromiseRef s \<noteq> Some (Rejected e)"
  shows "\<exists>s'. disconnect s = Inr s' \<and> connectionState s' = Disconnected \<and> uncaught s' = uncaught s
      \<and> (\<exists>s''. disconnect s' = Inr s'' \<and> connectionState s'' = Disconnected \<and> uncaught s'' = uncaught s)"
proof -
  have one: "\<exists>s'. disconnect s = Inr s' \<and> uncaught s' = uncaught s
      \<and> (\<forall>e. sessionPromiseRef s' \<noteq> Some (Rejected e))"
    if "\<forall>e. sessionPromiseRef s \<noteq> Some (Rejected e)" for s
  proof (cases "sessionPromiseRef s")
    case None
    then show ?thesis using disconnect_no_session [of s] by auto
  next
    case (Some p)
    show ?thesis
    proof (cases p)
      case Pending
      then show ?thesis using Some disconnect_pending [of s] by auto
    next
      case (Fulfilled session)
      then show ?thesis using Some disconnect_fulfilled [of s session] by auto
    next
      case (Rejected e)
      then show ?thesis using Some that by simp
    qed
  qed
  from one [OF assms] obtain s' where s': "disconnect s = Inr s'" "uncaught s' = uncaught s"
    "\<forall>e. sessionPromiseRef s' \<noteq> Some (Rejected e)" by blast
  from one [OF s'(3)] obtain s'' where s'': "disconnect s' = Inr s''" "uncaught s'' = uncaught s'"
    by blast
  have "connectionState s' = Disconnected" "connectionState s'' = Disconnected"
    using disconnect_state [of s] disconnect_state [of s'] s'(1) s''(1) by simp_all
  with s' s'' show ?thesis by simp
qed

text \<open>
  Claim C8. When the promise stored by \<open>connectToGemini\<close> is rejected, \<open>disconnect\<close> raises:
  its \<open>await\<close> sits outside the \<open>try\<close>, the rejection escapes the call and the handle is
  never cleared, so a second call raises again.
\<close>

theorem disconnect_after_failed_handshake:
  "sessionPromiseRef (step (HandleAgentSelect env_rejected) initial)
      = Some (Rejected (Exn ''handshake failed''))
   \<and> uncaught (run [HandleAgentSelect env_rejected, Hangup] initial) = [Exn ''handshake failed'']
   \<and> sessionPromiseRef (run [HandleAgentSelect env_rejected, Hangup] initial)
      = Some (Rejected (Exn ''handshake failed''))
   \<and> uncaught (run [HandleAgentSelect env_rejected, Hangup, Hangup] initial)
      = [Exn ''handshake failed'', Exn ''handshake failed'']"
  by (simp add: initial_def env_rejected_def env_ok_def eval_defs)

section \<open>A payload that does not decode\<close>

text \<open>
  Claim C7. When the payload of an inbound message fails to decode, the handler completes
  without raising: no node is created for the chunk, "Error decoding audio chunk" is
  written to the console, and the connection state, the session handle, the callbacks,
  the user-facing error message, the list of escaped errors, the mute flag, the capture
  refs, the number of \<open>session.close()\<close> calls and the chunks sent are unchanged. If the
  message carries no interruption, the state after is the state before with that console
  line and the cursor raised to the clock reading, so the store and the set are
  unchanged, and every later audio message (read at a clock not before this one) leaves
  the playback state exactly as if the failed message had not arrived. If it carries an
  interruption, the state after is the state before with the two console lines and the
  playback flushed.
\<close>

theorem decode_failure_is_local:
  assumes "inlineData msg \<noteq> None" and "inlineData msg \<noteq> Some []"
  shows "\<exists>s'. onmessage currentTime (Inl e) msg s = Inr s'
      \<and> connectionState s' = connectionState s
      \<and> sessionPromiseRef s' = sessionPromiseRef s
      \<and> liveCallbacks s' = liveCallbacks s
      \<and> errorMsg s' = errorMsg s
      \<and> uncaught s' = uncaught s
      \<and> isMicOn s' = isMicOn s
      \<and> streamRef s' = streamRef s
      \<and> sourceRef s' = sourceRef s
      \<and> processorRef s' = processorRef s
      \<and> closeCalls s' = closeCalls s
      \<and> outbox s' = outbox s
      \<and> length (nodes s') = length (nodes s)
      \<and> ''Error decoding audio chunk'' \<in> set (console s')
      \<and> console s' = console s @ ''Error decoding audio chunk''
            # (if interrupted msg then [''Interrupted by user''] else [])
      \<and> (\<not> interrupted msg \<longrightarrow>
            s' = console_write ''Error decoding audio chunk''
                   (s\<lparr>nextStartTimeRef := max (nextStartTimeRef s) currentTime\<rparr>)
            \<and> nodes s' = nodes s \<and> audioSourcesRef s' = audioSourcesRef s
            \<and> (\<forall>t decoded2 msg2.
                  currentTime \<le> t \<and> inlineData msg2 \<noteq> None \<and> inlineData msg2 \<noteq> Some [] \<longrightarrow>
                  playback_of (state_of (onmessage t decoded2 msg2 s'))
                    = playback_of (state_of (onmessage t decoded2 msg2 s))))
      \<and> (interrupted msg \<longrightarrow>
            s' = (console_write ''Interrupted by user'' (console_write ''Error decoding audio chunk'' s))
                   \<lparr>nodes := fold try_stop (audioSourcesRef s) (nodes s),
                    audioSourcesRef := [], nextStartTimeRef := 0\<rparr>)"
proof (cases "interrupted msg")
  case True
  then show ?thesis
    by (simp add: onmessage_payload [OF assms] after_audio_failed stopAudioOutput_eq console_write_def)
next
  case False
  let ?s' = "after_audio currentTime (Inl e) s"
  have r: "onmessage currentTime (Inl e) msg s = Inr ?s'"
    using False by (simp add: onmessage_payload [OF assms])
  have exact: "?s' = console_write ''Error decoding audio chunk''
                   (s\<lparr>nextStartTimeRef := max (nextStartTimeRef s) currentTime\<rparr>)"
    by (rule after_audio_failed)
  have same: "nodes ?s' = nodes s" "audioSourcesRef ?s' = audioSourcesRef s"
    "nextStartTimeRef ?s' = max (nextStartTimeRef s) currentTime"
    by (simp_all add: after_audio_failed console_write_def)
  have later: "playback_of (state_of (onmessage t decoded2 msg2 ?s'))
                 = playback_of (state_of (onmessage t decoded2 msg2 s))"
    if "currentTime \<le> t" "inlineData msg2 \<noteq> None" "inlineData msg2 \<noteq> Some []"
    for t decoded2 msg2
  proof (rule onmessage_playback [OF that(2,3) same(1,2)])
    show "max (nextStartTimeRef ?s') t = max (nextStartTimeRef s) t"
      using that(1) by (simp add: same(3))
  qed
  have fields: "connectionState ?s' = connectionState s" "sessionPromiseRef ?s' = sessionPromiseRef s"
    "liveCallbacks ?s' = liveCallbacks s" "errorMsg ?s' = errorMsg s" "uncaught ?s' = uncaught s"
    "isMicOn ?s' = isMicOn s" "streamRef ?s' = streamRef s" "sourceRef ?s' = sourceRef s"
    "processorRef ?s' = processorRef s" "closeCalls ?s' = closeCalls s" "outbox ?s' = outbox s"
    "''Error decoding audio chunk'' \<in> set (console ?s')"
    "console ?s' = console s @ [''Error decoding audio chunk'']"
    by (simp_all add: after_audio_failed console_write_def)
  show ?thesis
    using False r exact same fields later by auto
qed

theorem decode_failure_is_local_witness:
  "inlineData audio_msg \<noteq> None \<and> inlineData audio_msg \<noteq> Some [] \<and> \<not> interrupted audio_msg
   \<and> (\<exists>s'. onmessage 1 (Inl (Exn ''bad payload'')) audio_msg in_call_playing = Inr s'
          \<and> connectionState s' = Connected
          \<and> sessionPromiseRef s' = Some (Fulfilled (Session None))
          \<and> errorMsg s' = None
          \<and> streamRef s' = Some 1 \<and> sourceRef s' = Some 1
          \<and> processorRef s' = Some \<lparr>p_isMicOn = True\<rparr>
          \<and> closeCalls s' = 0 \<and> outbox s' = []
          \<and> s' = console_write ''Error decoding audio chunk'' in_call_playing
          \<and> nodes s' = nodes in_call_playing
          \<and> audioSourcesRef s' = [0]
          \<and> playback_of (state_of (onmessage 2 (Inr \<lparr>duration = 1\<rparr>) audio_msg s'))
               = playback_of (state_of (onmessage 2 (Inr \<lparr>duration = 1\<rparr>) audio_msg in_call_playing)))"
proof -
  have p: "inlineData audio_msg \<noteq> None" "inlineData audio_msg \<noteq> Some []" "\<not> interrupted audio_msg"
    by (simp_all add: audio_msg_def)
  from decode_failure_is_local [OF p(1,2), of 1 "Exn ''bad payload''" in_call_playing] p(3)
  obtain s' where s': "onmessage 1 (Inl (Exn ''bad payload'')) audio_msg in_call_playing = Inr s'"
    "connectionState s' = connectionState in_call_playing"
    "sessionPromiseRef s' = sessionPromiseRef in_call_playing"
    "errorMsg s' = errorMsg in_call_playing"
    "streamRef s' = streamRef in_call_playing" "sourceRef s' = sourceRef in_call_playing"
    "processorRef s' = processorRef in_call_playing"
    "closeCalls s' = closeCalls in_call_playing" "outbox s' = outbox in_call_playing"
    "s' = console_write ''Error decoding audio chunk''
            (in_call_playing\<lparr>nextStartTimeRef := max (nextStartTimeRef in_call_playing) 1\<rparr>)"
    "nodes s' = nodes in_call_playing" "audioSourcesRef s' = audioSourcesRef in_call_playing"
    and later: "\<And>t decoded2 msg2. (1::real) \<le> t \<Longrightarrow> inlineData msg2 \<noteq> None \<Longrightarrow> inlineData msg2 \<noteq> Some [] \<Longrightarrow>
                  playback_of (state_of (onmessage t decoded2 msg2 s'))
                    = playback_of (state_of (onmessage t decoded2 msg2 in_call_playing))"
    by blast
  have "playback_of (state_of (onmessage 2 (Inr \<lparr>duration = 1\<rparr>) audio_msg s'))
               = playback_of (state_of (onmessage 2 (Inr \<lparr>duration = 1\<rparr>) audio_msg in_call_playing))"
    by (rule later) (simp_all add: p)
  moreover have "in_call_playing\<lparr>nextStartTimeRef := max (nextStartTimeRef in_call_playing) 1\<rparr>
      = in_call_playing"
    by (simp add: in_call_playing_eq in_call_eq)
  ultimately show ?thesis
    using s' p by (simp add: in_call_playing_eq in_call_eq)
qed

section \<open>Audio and interruption in one message\<close>

text \<open>
  Claim C10. For a message that carries both a payload and the interrupted flag, the
  handler is the audio part followed by the flush; it completes with an empty set and the
  cursor at 0, and when the payload decodes (and the start time is not negative) the
  unit of this message has been started at \<open>max(nextStartTime, currentTime)\<close> and is no
  longer playing.
\<close>

theorem interrupting_audio_is_flushed:
  assumes "inlineData msg \<noteq> None" and "inlineData msg \<noteq> Some []" and "interrupted msg"
  shows "onmessage currentTime decoded msg s
           = then_do (onmessage currentTime decoded (msg\<lparr>interrupted := False\<rparr>))
               (then_do (pure_step (console_write ''Interrupted by user'')) stopAudioOutput) s
      \<and> (\<exists>s'. onmessage currentTime decoded msg s = Inr s'
            \<and> audioSourcesRef s' = [] \<and> nextStartTimeRef s' = 0
            \<and> (\<forall>audioBuffer. decoded = Inr audioBuffer \<and> 0 \<le> max (nextStartTimeRef s) currentTime \<longrightarrow>
                  length (nodes s') = Suc (length (nodes s))
                  \<and> startedAt (nodes s' ! length (nodes s)) = Some (max (nextStartTimeRef s) currentTime)
                  \<and> \<not> playing (nodes s' ! length (nodes s))))"
proof -
  let ?m = "msg\<lparr>interrupted := False\<rparr>"
  have m: "inlineData ?m \<noteq> None" "inlineData ?m \<noteq> Some []" "\<not> interrupted ?m"
    using assms by simp_all
  have order: "onmessage currentTime decoded msg s
           = then_do (onmessage currentTime decoded ?m)
               (then_do (pure_step (console_write ''Interrupted by user'')) stopAudioOutput) s"
    using assms(3)
    by (simp add: onmessage_payload [OF assms(1,2)] onmessage_payload [OF m(1,2)] then_do_def pure_step_def)
  let ?a = "console_write ''Interrupted by user'' (after_audio currentTime decoded s)"
  let ?s' = "?a\<lparr>nodes := fold try_stop (audioSourcesRef ?a) (nodes ?a),
               audioSourcesRef := [], nextStartTimeRef := 0\<rparr>"
  have r: "onmessage currentTime decoded msg s = Inr ?s'"
    using assms(3) by (simp add: onmessage_payload [OF assms(1,2)] stopAudioOutput_eq)
  have sched: "length (nodes ?s') = Suc (length (nodes s))
      \<and> startedAt (nodes ?s' ! length (nodes s)) = Some (max (nextStartTimeRef s) currentTime)
      \<and> \<not> playing (nodes ?s' ! length (nodes s))"
    if d: "decoded = Inr audioBuffer" and t: "0 \<le> max (nextStartTimeRef s) currentTime" for audioBuffer
  proof -
    have nn: "\<not> max (nextStartTimeRef s) currentTime < 0" using t by linarith
    have a: "nodes ?a = nodes s @ [\<lparr>buffer = audioBuffer, startedAt = Some (max (nextStartTimeRef s) currentTime),
                                         stopped = False, ended = False\<rparr>]"
      "audioSourcesRef ?a = set_add (length (nodes s)) (audioSourcesRef s)"
      using nn by (auto simp: d after_audio_eq Let_def console_write_def)
    have len: "length (nodes s) < length (nodes ?a)" by (simp add: a)
    have "\<not> playing (fold try_stop (audioSourcesRef ?a) (nodes ?a) ! length (nodes s))"
      by (rule fold_try_stop_stops) (simp_all add: a)
    moreover have "startedAt (fold try_stop (audioSourcesRef ?a) (nodes ?a) ! length (nodes s))
        = Some (max (nextStartTimeRef s) currentTime)"
      using len by (simp add: a(1))
    moreover have "length (fold try_stop (audioSourcesRef ?a) (nodes ?a)) = Suc (length (nodes s))"
      by (simp add: a(1))
    ultimately show ?thesis by simp
  qed
  have "audioSourcesRef ?s' = [] \<and> nextStartTimeRef ?s' = 0" by simp
  with order r sched show ?thesis by blast
qed

theorem interrupting_audio_is_flushed_witness:
  "inlineData interrupting_audio_msg \<noteq> None \<and> inlineData interrupting_audio_msg \<noteq> Some []
   \<and> interrupted interrupting_audio_msg
   \<and> (\<exists>s'. onmessage 1 (Inr \<lparr>duration = 2\<rparr>) interrupting_audio_msg in_call_playing = Inr s'
          \<and> audioSourcesRef s' = [] \<and> nextStartTimeRef s' = 0
          \<and> length (nodes s') = 2
          \<and> startedAt (nodes s' ! 1) = Some 5
          \<and> \<not> playing (nodes s' ! 1))"
proof -
  have p: "inlineData interrupting_audio_msg \<noteq> None" "inlineData interrupting_audio_msg \<noteq> Some []"
    "interrupted interrupting_audio_msg"
    by (simp_all add: interrupting_audio_msg_def)
  have q: "nextStartTimeRef in_call_playing = 5" "length (nodes in_call_playing) = 1"
    by (simp_all add: in_call_playing_eq in_call_eq)
  from interrupting_audio_is_flushed [OF p, of 1 "Inr \<lparr>duration = 2\<rparr>" in_call_playing]
  obtain s' where s': "onmessage 1 (Inr \<lparr>duration = 2\<rparr>) interrupting_audio_msg in_call_playing = Inr s'"
    "audioSourcesRef s' = []" "nextStartTimeRef s' = 0"
    and sched: "\<And>audioBuffer. Inr \<lparr>duration = 2\<rparr> = (Inr audioBuffer :: exn + AudioBuffer) \<Longrightarrow>
         0 \<le> max (nextStartTimeRef in_call_playing) 1 \<Longrightarrow>
         length (nodes s') = Suc (length (nodes in_call_playing))
         \<and> startedAt (nodes s' ! length (nodes in_call_playing))
              = Some (max (nextStartTimeRef in_call_playing) 1)
         \<and> \<not> playing (nodes s' ! length (nodes in_call_playing))"
    by blast
  have "length (nodes s') = Suc (length (nodes in_call_playing))
         \<and> startedAt (nodes s' ! length (nodes in_call_playing))
              = Some (max (nextStartTimeRef in_call_playing) 1)
         \<and> \<not> playing (nodes s' ! length (nodes in_call_playing))"
    by (rule sched) (simp_all add: q)
  with s' p show ?thesis
    by (simp add: q)
qed

section \<open>Tracking of playing units\<close>

lemma tracked_iff:
  "tracked s = (\<forall>i < length (nodes s). playing (nodes s ! i) \<longrightarrow> i \<in> set (audioSourcesRef s))"
  by (auto simp: tracked_def list_all_iff)

lemma tracked_cong:
  "nodes s' = nodes s \<Longrightarrow> audioSourcesRef s' = audioSourcesRef s \<Longrightarrow> tracked s' = tracked s"
  by (simp add: tracked_iff)

lemma tracked_flush:
  assumes "tracked s" "nodes s' = fold try_stop (audioSourcesRef s) (nodes s)"
  shows "tracked s'"
proof -
  have "\<not> playing (nodes s' ! i)" if "i < length (nodes s)" for i
  proof (cases "i \<in> set (audioSourcesRef s)")
    case True
    then show ?thesis using that by (simp add: assms(2) fold_try_stop_stops)
  next
    case False
    with assms(1) that have "\<not> playing (nodes s ! i)" by (auto simp: tracked_iff)
    then show ?thesis using that by (simp add: assms(2) fold_try_stop_not_playing)
  qed
  then show ?thesis by (simp add: tracked_iff assms(2))
qed

lemma tracked_after_audio: "tracked s \<Longrightarrow> tracked (after_audio currentTime decoded s)"
proof (cases decoded)
  case (Inl e)
  assume "tracked s"
  then show ?thesis
    by (simp add: Inl after_audio_failed tracked_iff console_write_def)
next
  case (Inr audioBuffer)
  assume t: "tracked s"
  show ?thesis
  proof (cases "max (nextStartTimeRef s) currentTime < 0")
    case True
    then show ?thesis using t
      by (auto simp: Inr after_audio_eq Let_def tracked_iff console_write_def createBufferSource_def
          nth_append playing_def)
  next
    case False
    then show ?thesis using t
      by (auto simp: Inr after_audio_eq Let_def tracked_iff nth_append set_add_subset less_Suc_eq)
  qed
qed

lemma tracked_onmessage: "tracked s \<Longrightarrow> tracked (state_of (onmessage currentTime decoded msg s))"
proof -
  assume t: "tracked s"
  show ?thesis
  proof (cases "inlineData msg = None \<or> inlineData msg = Some []")
    case True
    show ?thesis
    proof (cases "interrupted msg")
      case True
      have "tracked (state_of (stopAudioOutput (console_write ''Interrupted by user'' s)))"
        by (rule tracked_flush [of s]) (simp_all add: t stopAudioOutput_eq console_write_def)
      with True \<open>inlineData msg = None \<or> inlineData msg = Some []\<close> show ?thesis
        by (simp add: onmessage_no_payload)
    next
      case False
      with True t show ?thesis by (simp add: onmessage_no_payload)
    qed
  next
    case False
    then have m: "inlineData msg \<noteq> None" "inlineData msg \<noteq> Some []" by simp_all
    have ta: "tracked (after_audio currentTime decoded s)" using t by (rule tracked_after_audio)
    show ?thesis
    proof (cases "interrupted msg")
      case True
      have "tracked (state_of (stopAudioOutput (console_write ''Interrupted by user'' (after_audio currentTime decoded s))))"
        by (rule tracked_flush [of "after_audio currentTime decoded s"])
           (simp_all add: ta stopAudioOutput_eq console_write_def)
      with True show ?thesis by (simp add: onmessage_payload [OF m])
    next
      case False
      with ta show ?thesis by (simp add: onmessage_payload [OF m])
    qed
  qed
qed

lemma disconnect_playback:
  "nodes (state_of (disconnect s)) = fold try_stop (audioSourcesRef s) (nodes s)
   \<and> audioSourcesRef (state_of (disconnect s)) = []"
  by (simp add: disconnect_def then_do_def disconnect_sync_eq disconnect_resume_def
      try_catch_def session_close_def pure_step_def console_write_def Let_def
      split: option.splits SessionPromise.splits)

lemma tracked_disconnect: "tracked s \<Longrightarrow> tracked (state_of (disconnect s))"
  by (rule tracked_flush [of s]) (simp_all add: disconnect_playback)

lemma tracked_onerror: "tracked s \<Longrightarrow> tracked (state_of (onerror e s))"
proof -
  assume t: "tracked s"
  let ?s0 = "(console_write ''Session Error'' s)\<lparr>errorMsg := Some ''Connection error. Please try again.''\<rparr>"
  have "tracked ?s0" using t by (simp add: tracked_iff console_write_def)
  then show ?thesis unfolding onerror_eq by (rule tracked_disconnect)
qed

lemma connect_playback:
  "nodes (state_of (connectToGemini env s)) = nodes s
   \<and> audioSourcesRef (state_of (connectToGemini env s)) = audioSourcesRef s"
  by (simp add: connectToGemini_def try_catch_def then_do_def pure_step_def console_write_def
      split: sum.splits option.splits)

lemma tracked_source_ended: "tracked s \<Longrightarrow> tracked (source_ended source s)"
  by (auto simp: tracked_iff source_ended_def set_delete_def nth_list_update playing_def)

lemma tracked_uncaught [simp]: "tracked (s\<lparr>uncaught := u\<rparr>) = tracked s"
  by (simp add: tracked_iff)

lemma step_state_of:
  "step ev s = (case handler ev s of Inr s' \<Rightarrow> s' | Inl (e, s') \<Rightarrow> (state_of (handler ev s))\<lparr>uncaught := uncaught s' @ [e]\<rparr>)"
  by (simp add: step_def split: sum.splits prod.splits)

lemma tracked_step_via_handler:
  "tracked (state_of (handler ev s)) \<Longrightarrow> tracked (step ev s)"
  by (cases "handler ev s") (auto simp: step_def)

lemma tracked_handler: "tracked s \<Longrightarrow> tracked (state_of (handler ev s))"
proof (cases ev)
  case (HandleAgentSelect env)
  assume "tracked s"
  then show ?thesis
    using connect_playback [of env s] by (simp add: HandleAgentSelect tracked_iff)
next
  case RemoteOpen
  assume "tracked s"
  then show ?thesis
    by (simp add: RemoteOpen tracked_iff onopen_def console_write_def split: option.splits)
next
  case (RemoteMessage currentTime decoded msg)
  assume "tracked s"
  then show ?thesis
    by (simp add: RemoteMessage tracked_onmessage split: option.splits)
next
  case RemoteClose
  assume "tracked s"
  then show ?thesis
    by (simp add: RemoteClose tracked_iff onclose_def console_write_def split: option.splits)
next
  case (RemoteError e)
  assume "tracked s"
  then show ?thesis
    by (simp add: RemoteError tracked_onerror split: option.splits)
next
  case Hangup
  assume "tracked s"
  then show ?thesis
    by (simp add: Hangup tracked_disconnect)
next
  case ToggleMic
  assume "tracked s"
  then show ?thesis
    by (simp add: ToggleMic tracked_iff toggleMic_def)
next
  case (CaptureTick pcmBlob)
  assume "tracked s"
  then show ?thesis
    by (simp add: CaptureTick tracked_iff onaudioprocess_def split: option.splits)
next
  case (SourceEnded source)
  assume "tracked s"
  then show ?thesis
    by (simp add: SourceEnded tracked_source_ended)
qed

lemma run_tracked:
  "tracked s \<Longrightarrow> tracked (run evs s)"
proof (induction evs arbitrary: s)
  case Nil
  then show ?case by simp
next
  case (Cons ev evs)
  have "tracked (step ev s)"
    using Cons.prems by (intro tracked_step_via_handler tracked_handler)
  then show ?case using Cons.IH by simp
qed

lemma step_enqueue_tracked:
  assumes "liveCallbacks s \<noteq> None" "is_audio_message ev" "is_enqueue ev"
  shows "playing (nodes (step ev s) ! length (nodes s))
     \<and> length (nodes s) \<in> set (audioSourcesRef (step ev s))"
proof -
  from assms(2) obtain currentTime decoded msg where ev: "ev = RemoteMessage currentTime decoded msg"
    by (cases ev) simp_all
  with assms(2) have m: "inlineData msg \<noteq> None" "inlineData msg \<noteq> Some []" "\<not> interrupted msg"
    by simp_all
  from assms(3) ev obtain audioBuffer where d: "decoded = Inr audioBuffer" and t: "0 \<le> currentTime"
    by (cases decoded) simp_all
  from assms(1) obtain c where c: "liveCallbacks s = Some c" by auto
  show ?thesis
    using t by (auto simp: ev d c step_def onmessage_audio [OF m] Let_def playing_def)
qed

text \<open>
  Claim C9, as amended. In \<open>onmessage\<close> the unit is started first and added to the set two
  statements later, with nothing that suspends the handler in between. So at the end of
  every handler each playing unit of the store is a member of the set, in every run from
  a state where that holds; and the unit a completed enqueue has started is playing and
  is in the set.
\<close>

theorem playing_units_tracked:
  "(tracked s \<longrightarrow> tracked (run evs s))
   \<and> (liveCallbacks s \<noteq> None \<and> is_audio_message ev \<and> is_enqueue ev \<longrightarrow>
        playing (nodes (step ev s) ! length (nodes s))
        \<and> length (nodes s) \<in> set (audioSourcesRef (step ev s)))"
  using run_tracked [of s evs] step_enqueue_tracked [of s ev] by blast

theorem insert_follows_start_counterexample:
  "playing (nodes (state_of (run_statements (take 2 (enqueue_statements \<lparr>duration = 1\<rparr> 0)) initial)) ! 0)
   \<and> audioSourcesRef (state_of (run_statements (take 2 (enqueue_statements \<lparr>duration = 1\<rparr> 0)) initial)) = []
   \<and> \<not> tracked (state_of (run_statements (take 2 (enqueue_statements \<lparr>duration = 1\<rparr> 0)) initial))
   \<and> audioSourcesRef (state_of (run_statements (enqueue_statements \<lparr>duration = 1\<rparr> 0) initial)) = [0]"
  by (simp add: enqueue_statements_def initial_def then_do_def pure_step_def on_node_def
      start_node_def createBufferSource_def playing_def tracked_def set_add_def)

theorem playing_units_tracked_witness:
  "tracked in_call \<and> liveCallbacks in_call \<noteq> None
   \<and> is_audio_message (RemoteMessage 0 (Inr \<lparr>duration = 5\<rparr>) audio_msg)
   \<and> is_enqueue (RemoteMessage 0 (Inr \<lparr>duration = 5\<rparr>) audio_msg)
   \<and> tracked (run [RemoteMessage 0 (Inr \<lparr>duration = 5\<rparr>) audio_msg, SourceEnded 0] in_call)
   \<and> playing (nodes in_call_playing ! 0)
   \<and> audioSourcesRef in_call_playing = [0]"
proof -
  have p: "tracked in_call" "liveCallbacks in_call \<noteq> None"
    "is_audio_message (RemoteMessage 0 (Inr \<lparr>duration = 5\<rparr>) audio_msg)"
    "is_enqueue (RemoteMessage 0 (Inr \<lparr>duration = 5\<rparr>) audio_msg)"
    by (simp_all add: tracked_def in_call_eq audio_msg_def)
  from playing_units_tracked [of in_call
      "[RemoteMessage 0 (Inr \<lparr>duration = 5\<rparr>) audio_msg, SourceEnded 0]"
      "RemoteMessage 0 (Inr \<lparr>duration = 5\<rparr>) audio_msg"] p
  have "tracked (run [RemoteMessage 0 (Inr \<lparr>duration = 5\<rparr>) audio_msg, SourceEnded 0] in_call)"
    "playing (nodes (step (RemoteMessage 0 (Inr \<lparr>duration = 5\<rparr>) audio_msg) in_call) ! length (nodes in_call))"
    by blast+
  then show ?thesis
    using p by (simp add: in_call_eq in_call_playing_eq playing_def)
qed

section \<open>The two parts of the message handler on their own\<close>

text \<open>
  Other handlers may run while \<open>onmessage\<close> awaits the decode. What the claims above say
  of the whole handler holds of the part after the \<open>await\<close> from any state.
\<close>

lemma resume_after_interruption:
  assumes "interrupted msg"
  shows "\<exists>s'. onmessage_resume decoded msg s = Inr s'
           \<and> audioSourcesRef s' = [] \<and> nextStartTimeRef s' = 0"
proof (cases "inlineData msg = None \<or> inlineData msg = Some []")
  case True
  then show ?thesis
    using assms by (simp add: onmessage_resume_eq onmessage_no_payload stopAudioOutput_eq)
next
  case False
  then have m: "inlineData msg \<noteq> None" "inlineData msg \<noteq> Some []" by simp_all
  show ?thesis
    using assms by (simp add: onmessage_resume_eq onmessage_payload [OF m] stopAudioOutput_eq)
qed

lemma resume_decode_failure:
  assumes "inlineData msg \<noteq> None" "inlineData msg \<noteq> Some []" "\<not> interrupted msg"
  shows "onmessage_resume (Inl e) msg s = Inr (console_write ''Error decoding audio chunk'' s)"
  using assms(3)
  by (simp add: onmessage_resume_eq onmessage_payload [OF assms(1,2)] after_audio_failed)

lemma tracked_begin: "tracked s \<Longrightarrow> tracked (onmessage_begin currentTime msg s)"
  by (simp add: tracked_iff onmessage_begin_def)

lemma tracked_resume: "tracked s \<Longrightarrow> tracked (state_of (onmessage_resume decoded msg s))"
  by (simp add: onmessage_resume_eq tracked_onmessage)

end
